theory Spec2Isabelle
  imports Main
begin

section \<open>Time base\<close>

text \<open>
  A naive \<^verbatim>\<open>datetime\<close> is modelled by its number of microseconds (the resolution of
  Python's \<^verbatim>\<open>datetime\<close>) and a \<^verbatim>\<open>timedelta\<close> by a microsecond count. The test
  \<^verbatim>\<open>(a - b).total_seconds() < 600\<close> is the integer test \<open>a - b < timedelta 0 0 600\<close>.
  A \<^verbatim>\<open>'%Y-%m-%d'\<close> string is modelled by the day number it denotes and a
  \<^verbatim>\<open>'%H:%M:%S'\<close> string by the second of the day.
\<close>

type_synonym time = int

definition timedelta :: "int \<Rightarrow> int \<Rightarrow> int \<Rightarrow> time" where
  "timedelta h m sec = ((h * 60 + m) * 60 + sec) * 1000000"

definition strftime_date :: "time \<Rightarrow> int" where
  "strftime_date t = t div timedelta 24 0 0"

definition strftime_time :: "time \<Rightarrow> int" where
  "strftime_time t = (t mod timedelta 24 0 0) div timedelta 0 0 1"

text \<open>
  What a request reads from outside the store: \<^verbatim>\<open>datetime.utcnow()\<close>,
  \<^verbatim>\<open>datetime.now()\<close> (the server's local time), the six digits drawn by
  \<^verbatim>\<open>random.choices\<close> and the salt drawn by the password hasher. All clock reads of
  one request see the same instant.
\<close>

record env =
  utcnow :: time
  now :: time
  random_digits :: string
  salt :: string

definition get_ist_time :: "env \<Rightarrow> time" where
  "get_ist_time e = utcnow e + timedelta 5 30 0"

section \<open>Password hashing (external collaborator)\<close>

text \<open>
  Django's \<^verbatim>\<open>make_password\<close> and \<^verbatim>\<open>check_password\<close> are modelled symbolically: a digest
  records the salt and the password it was made from, and checking compares the password.
\<close>

datatype digest = Digest string string

definition make_password :: "string \<Rightarrow> string \<Rightarrow> digest" where
  "make_password slt pw = Digest slt pw"

fun check_password :: "string \<Rightarrow> digest \<Rightarrow> bool" where
  "check_password pw (Digest slt pw') = (pw = pw')"

section \<open>Documents and the store\<close>

text \<open>An \<^verbatim>\<open>ObjectId\<close> is a natural number; \<^verbatim>\<open>str(_id)\<close> is the same number.\<close>

record user_doc =
  u_id :: nat
  u_username :: string
  u_email :: string
  u_password :: digest
  u_is_verified :: bool
  u_role :: string
  u_created_at :: time
  u_updated_at :: time

record otp_doc =
  o_id :: nat
  o_email :: string
  o_otp :: string
  o_purpose :: string
  o_is_used :: bool
  o_created_at :: time

record login_doc =
  l_id :: nat
  l_user_id :: nat
  l_username :: "string option"
  l_device_type :: string
  l_login_time :: time
  l_is_active :: bool

record logout_doc =
  lo_id :: nat
  lo_user_id :: nat
  lo_device_type :: string
  lo_logout_time :: time

text \<open>The \<^verbatim>\<open>punched_out_*\<close> fields are present together or absent together.\<close>

record punch_out_fields =
  punched_out_date :: int
  punched_out_time :: int
  punched_out_location :: "string option"
  punched_out_latitude :: "string option"
  punched_out_longitude :: "string option"
  punched_out_at :: time

record punch_doc =
  p_id :: nat
  p_user_id :: nat
  p_username :: "string option"
  p_email :: "string option"
  punched_in_date :: int
  punched_in_time :: int
  p_location :: "string option"
  p_latitude :: "string option"
  p_longitude :: "string option"
  p_created_at :: time
  p_punched_out :: "punch_out_fields option"

text \<open>
  Modelled from the spec: the module \<^verbatim>\<open>mongodb_handler\<close> and its
  \<^verbatim>\<open>mongo_handler.get_collection(name)\<close> are not among the sources. Following section 6
  of the specification it is a single document store offering insert, find-one and
  find-many with equality and range filters, sort by a field descending, update-one,
  update-many, delete-one and delete-many. Each collection is the list of its documents in
  insertion order, \<^verbatim>\<open>get_collection(name)\<close> is the field of that name, and \<open>next_id\<close>
  is the next \<^verbatim>\<open>ObjectId\<close> the driver hands out.
\<close>

record store =
  users :: "user_doc list"
  otps :: "otp_doc list"
  login_sessions :: "login_doc list"
  logout_sessions :: "logout_doc list"
  punched_in :: "punch_doc list"
  punched_out :: "punch_doc list"
  attendance :: "punch_doc list"
  next_id :: nat

definition empty_store :: store where
  "empty_store = \<lparr>users = [], otps = [], login_sessions = [], logout_sessions = [],
     punched_in = [], punched_out = [], attendance = [], next_id = 0\<rparr>"

section \<open>Collection primitives\<close>

definition find_one :: "('a \<Rightarrow> bool) \<Rightarrow> 'a list \<Rightarrow> 'a option" where
  "find_one P xs = List.find P xs"

text \<open>
  \<^verbatim>\<open>find_one(filter, sort=[(field, -1)])\<close>: the matching document with the greatest
  key; among equal keys the one inserted first.
\<close>

fun greatest_by :: "('a \<Rightarrow> time) \<Rightarrow> 'a list \<Rightarrow> 'a option" where
  "greatest_by key [] = None"
| "greatest_by key (x # xs) =
     (case greatest_by key xs of
        None \<Rightarrow> Some x
      | Some y \<Rightarrow> if key x < key y then Some y else Some x)"

definition find_one_sort_desc :: "('a \<Rightarrow> bool) \<Rightarrow> ('a \<Rightarrow> time) \<Rightarrow> 'a list \<Rightarrow> 'a option" where
  "find_one_sort_desc P key xs = greatest_by key (filter P xs)"

fun delete_one :: "('a \<Rightarrow> bool) \<Rightarrow> 'a list \<Rightarrow> 'a list" where
  "delete_one P [] = []"
| "delete_one P (x # xs) = (if P x then xs else x # delete_one P xs)"

definition delete_many :: "('a \<Rightarrow> bool) \<Rightarrow> 'a list \<Rightarrow> 'a list" where
  "delete_many P xs = filter (\<lambda>x. \<not> P x) xs"

fun update_one :: "('a \<Rightarrow> bool) \<Rightarrow> ('a \<Rightarrow> 'a) \<Rightarrow> 'a list \<Rightarrow> 'a list" where
  "update_one P f [] = []"
| "update_one P f (x # xs) = (if P x then f x # xs else x # update_one P f xs)"

definition update_many :: "('a \<Rightarrow> bool) \<Rightarrow> ('a \<Rightarrow> 'a) \<Rightarrow> 'a list \<Rightarrow> 'a list" where
  "update_many P f xs = map (\<lambda>x. if P x then f x else x) xs"

section \<open>Results\<close>

text \<open>
  One constructor per error response of the views, named as in the specification where it
  names them. \<open>InvalidOTP\<close> is the message \<^verbatim>\<open>'Invalid OTP'\<close> and \<open>IncorrectOTP\<close> the
  message \<^verbatim>\<open>'Incorrect OTP'\<close> of \<^verbatim>\<open>reset_password\<close>.
\<close>

datatype error =
    AuthenticationRequired
  | UserNotFound
  | ValidationError
  | DuplicateVerifiedUser
  | RecentUnverifiedSignupPending
  | InvalidOTP
  | IncorrectOTP
  | OTPExpired
  | EmailNotVerified
  | InvalidCredentials
  | SessionInvalidated
  | AlreadyPunchedIn
  | NotLoggedIn
  | AlreadyPunchedInToday
  | NoPunchInFound

datatype reply =
    UserCreated nat
  | EmailVerified
  | LoginSuccessful nat
  | OTPSent
  | PasswordReset
  | PunchInSuccessful punch_doc
  | PunchOutSuccessful punch_doc
  | LogoutSuccessful
  | CleanupDone

section \<open>mongo models: MongoOTP\<close>

text \<open>Python's truth test of an optional string argument (\<^verbatim>\<open>if email:\<close>).\<close>

fun truthy :: "string option \<Rightarrow> bool" where
  "truthy None = False"
| "truthy (Some e) = (e \<noteq> [])"

definition cleanup_expired_otps :: "env \<Rightarrow> string option \<Rightarrow> store \<Rightarrow> store" where
  "cleanup_expired_otps e email s =
     (let expiry_time = get_ist_time e - timedelta 0 10 0 in
      s\<lparr>otps := delete_many
          (\<lambda>d. o_created_at d < expiry_time \<and> (truthy email \<longrightarrow> Some (o_email d) = email))
          (otps s)\<rparr>)"

definition cleanup_otps_for_email :: "string \<Rightarrow> store \<Rightarrow> store" where
  "cleanup_otps_for_email email s = s\<lparr>otps := delete_many (\<lambda>d. o_email d = email) (otps s)\<rparr>"

definition generate_otp :: "env \<Rightarrow> string" where
  "generate_otp e = random_digits e"

definition create_otp :: "env \<Rightarrow> string \<Rightarrow> string \<Rightarrow> store \<Rightarrow> otp_doc \<times> store" where
  "create_otp e email purpose s =
     (let s1 = cleanup_expired_otps e None s;
          otp_data = \<lparr>o_id = next_id s1, o_email = email, o_otp = generate_otp e,
                      o_purpose = purpose, o_is_used = False, o_created_at = get_ist_time e\<rparr>
      in (otp_data, s1\<lparr>otps := otps s1 @ [otp_data], next_id := Suc (next_id s1)\<rparr>))"

definition get_latest_unused :: "string \<Rightarrow> string \<Rightarrow> store \<Rightarrow> otp_doc option" where
  "get_latest_unused email purpose s =
     find_one_sort_desc (\<lambda>d. o_email d = email \<and> o_purpose d = purpose \<and> o_is_used d = False)
       o_created_at (otps s)"

text \<open>
  Every OTP document is written by \<^verbatim>\<open>create_otp\<close> with a \<^verbatim>\<open>created_at\<close>, so the
  branch \<^verbatim>\<open>if not created_at\<close> of \<^verbatim>\<open>is_valid\<close> is never taken and the field is not optional here.
\<close>

definition is_valid :: "env \<Rightarrow> otp_doc \<Rightarrow> bool" where
  "is_valid e otp =
     (if o_is_used otp then False
      else get_ist_time e - o_created_at otp < timedelta 0 0 600)"

text \<open>\<^verbatim>\<open>MongoOTP.delete\<close>.\<close>

definition otp_delete :: "otp_doc \<Rightarrow> store \<Rightarrow> store" where
  "otp_delete otp s = s\<lparr>otps := delete_one (\<lambda>d. o_id d = o_id otp) (otps s)\<rparr>"

section \<open>mongo models: MongoUser\<close>

definition cleanup_unverified_users :: "env \<Rightarrow> string option \<Rightarrow> store \<Rightarrow> store" where
  "cleanup_unverified_users e email s =
     (let ten_minutes_ago = get_ist_time e - timedelta 0 10 0;
          s1 = (if truthy email then cleanup_otps_for_email (the email) s else s)
      in s1\<lparr>users := delete_many
            (\<lambda>u. u_is_verified u = False \<and> u_created_at u < ten_minutes_ago
                  \<and> (truthy email \<longrightarrow> Some (u_email u) = email))
            (users s1)\<rparr>)"

definition perform_periodic_cleanup :: "env \<Rightarrow> store \<Rightarrow> store" where
  "perform_periodic_cleanup e s = cleanup_expired_otps e None (cleanup_unverified_users e None s)"

text \<open>The \<^verbatim>\<open>collection.insert_one(user_data)\<close> of \<^verbatim>\<open>create_user\<close>; the driver sets \<^verbatim>\<open>_id\<close>.\<close>

definition insert_user :: "user_doc \<Rightarrow> store \<Rightarrow> (error + user_doc) \<times> store" where
  "insert_user user_data s =
     (let d = user_data\<lparr>u_id := next_id s\<rparr>
      in (Inr d, s\<lparr>users := users s @ [d], next_id := Suc (next_id s)\<rparr>))"

definition create_user ::
  "env \<Rightarrow> string \<Rightarrow> string \<Rightarrow> string \<Rightarrow> string \<Rightarrow> store \<Rightarrow> (error + user_doc) \<times> store" where
  "create_user e username email password role s =
     (let s1 = cleanup_unverified_users e (Some email) s;
          user_data = \<lparr>u_id = 0, u_username = username, u_email = email,
                       u_password = make_password (salt e) password, u_is_verified = False,
                       u_role = role, u_created_at = get_ist_time e,
                       u_updated_at = get_ist_time e\<rparr>
      in case find_one (\<lambda>u. u_email u = email) (users s1) of
           None \<Rightarrow> insert_user user_data s1
         | Some existing_user \<Rightarrow>
             if u_is_verified existing_user then (Inl DuplicateVerifiedUser, s1)
             else if get_ist_time e - u_created_at existing_user < timedelta 0 0 600
               then (Inl RecentUnverifiedSignupPending, s1)
             else insert_user user_data
                    (s1\<lparr>users := delete_one (\<lambda>u. u_email u = email \<and> u_is_verified u = False)
                                   (users s1)\<rparr>))"

definition get_by_email :: "string \<Rightarrow> store \<Rightarrow> user_doc option" where
  "get_by_email email s = find_one (\<lambda>u. u_email u = email) (users s)"

definition get_by_id :: "nat \<Rightarrow> store \<Rightarrow> user_doc option" where
  "get_by_id user_id s = find_one (\<lambda>u. u_id u = user_id) (users s)"

definition authenticate :: "string \<Rightarrow> string \<Rightarrow> store \<Rightarrow> user_doc option" where
  "authenticate email password s =
     (case get_by_email email s of
        None \<Rightarrow> None
      | Some user \<Rightarrow> if check_password password (u_password user) then Some user else None)"

definition save :: "env \<Rightarrow> user_doc \<Rightarrow> store \<Rightarrow> store" where
  "save e data s =
     (let data' = data\<lparr>u_updated_at := get_ist_time e\<rparr>
      in s\<lparr>users := update_one (\<lambda>u. u_id u = u_id data') (\<lambda>_. data') (users s)\<rparr>)"

definition set_password :: "env \<Rightarrow> user_doc \<Rightarrow> string \<Rightarrow> store \<Rightarrow> store" where
  "set_password e user password s =
     save e (user\<lparr>u_password := make_password (salt e) password\<rparr>) s"

definition verify_email :: "env \<Rightarrow> user_doc \<Rightarrow> store \<Rightarrow> store" where
  "verify_email e user s = save e (user\<lparr>u_is_verified := True\<rparr>) s"

section \<open>mongo models: sessions\<close>

definition login_create_session :: "env \<Rightarrow> nat \<Rightarrow> string \<Rightarrow> store \<Rightarrow> login_doc \<times> store" where
  "login_create_session e user_id device_type s =
     (let user = get_by_id user_id s;
          username = (case user of None \<Rightarrow> None | Some u \<Rightarrow> Some (u_username u));
          session_data = \<lparr>l_id = next_id s, l_user_id = user_id, l_username = username,
                          l_device_type = device_type, l_login_time = get_ist_time e,
                          l_is_active = True\<rparr>
      in (session_data,
          s\<lparr>login_sessions := login_sessions s @ [session_data], next_id := Suc (next_id s)\<rparr>))"

definition get_latest_login :: "nat \<Rightarrow> store \<Rightarrow> login_doc option" where
  "get_latest_login user_id s =
     find_one_sort_desc (\<lambda>l. l_user_id l = user_id) l_login_time (login_sessions s)"

definition get_active_session :: "nat \<Rightarrow> store \<Rightarrow> login_doc option" where
  "get_active_session user_id s =
     find_one_sort_desc (\<lambda>l. l_user_id l = user_id \<and> l_is_active l = True) l_login_time
       (login_sessions s)"

definition logout_create_session :: "env \<Rightarrow> nat \<Rightarrow> string \<Rightarrow> store \<Rightarrow> logout_doc \<times> store" where
  "logout_create_session e user_id device_type s =
     (let session_data = \<lparr>lo_id = next_id s, lo_user_id = user_id,
                          lo_device_type = device_type, lo_logout_time = get_ist_time e\<rparr>
      in (session_data,
          s\<lparr>logout_sessions := logout_sessions s @ [session_data], next_id := Suc (next_id s)\<rparr>))"

definition get_latest_logout :: "nat \<Rightarrow> store \<Rightarrow> logout_doc option" where
  "get_latest_logout user_id s =
     find_one_sort_desc (\<lambda>l. lo_user_id l = user_id) lo_logout_time (logout_sessions s)"

definition has_logged_out_after :: "nat \<Rightarrow> time \<Rightarrow> store \<Rightarrow> bool" where
  "has_logged_out_after user_id login_time s =
     (find_one (\<lambda>l. lo_user_id l = user_id \<and> login_time < lo_logout_time l) (logout_sessions s)
        \<noteq> None)"

section \<open>mongo models: MongoAttendance\<close>

text \<open>
  \<^verbatim>\<open>MongoAttendance.punch_in\<close> takes the date and time strings from its caller; no view
  calls it.
\<close>

definition attendance_punch_in ::
  "env \<Rightarrow> nat \<Rightarrow> int \<Rightarrow> int \<Rightarrow> string option \<Rightarrow> string option \<Rightarrow> string option \<Rightarrow> store
     \<Rightarrow> (error + punch_doc) \<times> store" where
  "attendance_punch_in e user_id date tm location latitude longitude s =
     (case find_one (\<lambda>p. p_user_id p = user_id) (punched_in s) of
        Some existing \<Rightarrow> (Inl AlreadyPunchedIn, s)
      | None \<Rightarrow>
          (let user = get_by_id user_id s;
               punch_in_data = \<lparr>p_id = next_id s, p_user_id = user_id,
                 p_username = (case user of None \<Rightarrow> None | Some u \<Rightarrow> Some (u_username u)),
                 p_email = (case user of None \<Rightarrow> None | Some u \<Rightarrow> Some (u_email u)),
                 punched_in_date = date, punched_in_time = tm, p_location = location,
                 p_latitude = latitude, p_longitude = longitude,
                 p_created_at = get_ist_time e, p_punched_out = None\<rparr>
           in (Inr punch_in_data,
               s\<lparr>punched_in := punched_in s @ [punch_in_data], next_id := Suc (next_id s)\<rparr>)))"

definition attendance_punch_out ::
  "env \<Rightarrow> nat \<Rightarrow> int \<Rightarrow> int \<Rightarrow> string option \<Rightarrow> string option \<Rightarrow> string option \<Rightarrow> store
     \<Rightarrow> (error + punch_doc) \<times> store" where
  "attendance_punch_out e user_id date tm location latitude longitude s =
     (case find_one (\<lambda>p. p_user_id p = user_id) (punched_in s) of
        None \<Rightarrow> (Inl NoPunchInFound, s)
      | Some punched_in_record \<Rightarrow>
          (let punch_out_data = punched_in_record\<lparr>p_punched_out := Some
                 \<lparr>punched_out_date = date, punched_out_time = tm,
                  punched_out_location = location, punched_out_latitude = latitude,
                  punched_out_longitude = longitude, punched_out_at = get_ist_time e\<rparr>\<rparr>
           in (Inr punch_out_data,
               s\<lparr>punched_out := punched_out s @ [punch_out_data],
                 punched_in := delete_one (\<lambda>p. p_user_id p = user_id) (punched_in s)\<rparr>)))"

section \<open>Views\<close>

text \<open>
  Each view is modelled from the point where its serializer has accepted the request.
  Sending mail and issuing JWT tokens do not touch the store and always succeed here. The
  argument \<open>django_user\<close> of the authenticated views is the e-mail of the
  authenticated Django user, or \<open>None\<close> for an unauthenticated request.
\<close>

definition signup :: "env \<Rightarrow> string \<Rightarrow> string \<Rightarrow> string \<Rightarrow> store \<Rightarrow> (error + reply) \<times> store" where
  "signup e user_name email password s =
     (case create_user e user_name email password ''employee'' s of
        (Inl err, s1) \<Rightarrow> (Inl err, s1)
      | (Inr user, s1) \<Rightarrow>
          (let (otp_obj, s2) = create_otp e (u_email user) ''signup'' s1
           in (Inr (UserCreated (u_id user)), s2)))"

definition verify_otp :: "env \<Rightarrow> string \<Rightarrow> string \<Rightarrow> store \<Rightarrow> (error + reply) \<times> store" where
  "verify_otp e email otp_code s =
     (case get_latest_unused email ''signup'' s of
        None \<Rightarrow> (Inl InvalidOTP, s)
      | Some otp_obj \<Rightarrow>
          if o_otp otp_obj \<noteq> otp_code then (Inl InvalidOTP, s)
          else if \<not> is_valid e otp_obj then (Inl OTPExpired, s)
          else (let s1 = otp_delete otp_obj s in
                case get_by_email email s1 of
                  Some user \<Rightarrow> (Inr EmailVerified, verify_email e user s1)
                | None \<Rightarrow> (Inl UserNotFound, s1)))"

text \<open>
  The loop of \<^verbatim>\<open>login\<close> over the active sessions found: each is marked inactive by
  its \<^verbatim>\<open>_id\<close> and a logout session is created with the \<^verbatim>\<open>device_type\<close> of the request.
\<close>

fun logout_previous_sessions :: "env \<Rightarrow> nat \<Rightarrow> string \<Rightarrow> login_doc list \<Rightarrow> store \<Rightarrow> store" where
  "logout_previous_sessions e user_id device_type [] s = s"
| "logout_previous_sessions e user_id device_type (session # active_sessions) s =
     logout_previous_sessions e user_id device_type active_sessions
       (snd (logout_create_session e user_id device_type
          (s\<lparr>login_sessions := update_one (\<lambda>l. l_id l = l_id session)
                (\<lambda>l. l\<lparr>l_is_active := False\<rparr>) (login_sessions s)\<rparr>)))"

definition login :: "env \<Rightarrow> string \<Rightarrow> string \<Rightarrow> string \<Rightarrow> store \<Rightarrow> (error + reply) \<times> store" where
  "login e email password device_type s =
     (if email = [] \<or> password = [] then (Inl ValidationError, s)
      else case authenticate email password s of
        None \<Rightarrow> (Inl InvalidCredentials, s)
      | Some user \<Rightarrow>
          if u_is_verified user then
            (let active_sessions =
                   filter (\<lambda>l. l_user_id l = u_id user \<and> l_is_active l = True) (login_sessions s);
                 s1 = logout_previous_sessions e (u_id user) device_type active_sessions s;
                 (session, s2) = login_create_session e (u_id user) device_type s1
             in (Inr (LoginSuccessful (u_id user)), s2))
          else (Inl EmailNotVerified, s))"

definition forgot_password :: "env \<Rightarrow> string \<Rightarrow> store \<Rightarrow> (error + reply) \<times> store" where
  "forgot_password e email s =
     (case get_by_email email s of
        None \<Rightarrow> (Inl UserNotFound, s)
      | Some user \<Rightarrow>
          (let (otp_obj, s1) = create_otp e email ''forgot_password'' s
           in (Inr OTPSent, s1)))"

text \<open>
  The condition \<^verbatim>\<open>latest_logout and latest_login and
  latest_logout.data['logout_time'] > latest_login.timestamp\<close> of \<^verbatim>\<open>reset_password\<close>.
\<close>

definition logged_out_after_login :: "nat \<Rightarrow> store \<Rightarrow> bool" where
  "logged_out_after_login user_id s =
     (case get_latest_logout user_id s of
        None \<Rightarrow> False
      | Some latest_logout \<Rightarrow>
          (case get_latest_login user_id s of
             None \<Rightarrow> False
           | Some latest_login \<Rightarrow> l_login_time latest_login < lo_logout_time latest_logout))"

definition reset_password ::
  "env \<Rightarrow> string \<Rightarrow> string \<Rightarrow> string \<Rightarrow> store \<Rightarrow> (error + reply) \<times> store" where
  "reset_password e email otp_code new_password s =
     (if (case get_by_email email s of
            None \<Rightarrow> False
          | Some user \<Rightarrow> logged_out_after_login (u_id user) s)
      then (Inl SessionInvalidated, s)
      else case get_latest_unused email ''forgot_password'' s of
        None \<Rightarrow> (Inl InvalidOTP, s)
      | Some otp_obj \<Rightarrow>
          if o_otp otp_obj \<noteq> otp_code then (Inl IncorrectOTP, s)
          else (let s1 = otp_delete otp_obj s in
                case get_by_email email s1 of
                  Some user \<Rightarrow> (Inr PasswordReset, set_password e user new_password s1)
                | None \<Rightarrow> (Inl UserNotFound, s1)))"

definition punch_in ::
  "env \<Rightarrow> string option \<Rightarrow> string option \<Rightarrow> string option \<Rightarrow> string option \<Rightarrow> store
     \<Rightarrow> (error + reply) \<times> store" where
  "punch_in e django_user location latitude longitude s =
     (case django_user of
        None \<Rightarrow> (Inl AuthenticationRequired, s)
      | Some django_email \<Rightarrow>
          (case get_by_email django_email s of
             None \<Rightarrow> (Inl UserNotFound, s)
           | Some user \<Rightarrow>
               (let user_id = u_id user;
                    date = strftime_date (now e);
                    tm = strftime_time (now e)
                in if find_one (\<lambda>p. p_user_id p = user_id) (punched_in s) \<noteq> None
                   then (Inl AlreadyPunchedIn, s)
                   else if find_one (\<lambda>l. l_user_id l = user_id \<and> l_is_active l = True)
                             (login_sessions s) = None
                   then (Inl NotLoggedIn, s)
                   else if find_one (\<lambda>p. p_user_id p = user_id \<and> punched_in_date p = date)
                             (punched_in s) \<noteq> None
                   then (Inl AlreadyPunchedInToday, s)
                   else (let punch_in_data = \<lparr>p_id = next_id s, p_user_id = user_id,
                               p_username = Some (u_username user), p_email = Some (u_email user),
                               punched_in_date = date, punched_in_time = tm,
                               p_location = location, p_latitude = latitude,
                               p_longitude = longitude, p_created_at = utcnow e,
                               p_punched_out = None\<rparr>
                         in (Inr (PunchInSuccessful punch_in_data),
                             s\<lparr>punched_in := punched_in s @ [punch_in_data],
                               attendance := attendance s @ [punch_in_data],
                               next_id := Suc (next_id s)\<rparr>)))))"

text \<open>
  The store calls of \<^verbatim>\<open>punch_in\<close> in two groups, for runs in which two handlers take
  turns: the reads up to the last check (the three \<^verbatim>\<open>find_one\<close> calls and the user
  lookup), which yield the \<^verbatim>\<open>punch_in_data\<close> still without \<^verbatim>\<open>_id\<close>, and the two
  \<^verbatim>\<open>insert_one\<close> calls. Nothing in the source makes the two groups one atomic store
  operation.
\<close>

definition punch_in_checks ::
  "env \<Rightarrow> string option \<Rightarrow> string option \<Rightarrow> string option \<Rightarrow> string option \<Rightarrow> store
     \<Rightarrow> error + punch_doc" where
  "punch_in_checks e django_user location latitude longitude s =
     (case django_user of
        None \<Rightarrow> Inl AuthenticationRequired
      | Some django_email \<Rightarrow>
          (case get_by_email django_email s of
             None \<Rightarrow> Inl UserNotFound
           | Some user \<Rightarrow>
               (let user_id = u_id user;
                    date = strftime_date (now e);
                    tm = strftime_time (now e)
                in if find_one (\<lambda>p. p_user_id p = user_id) (punched_in s) \<noteq> None
                   then Inl AlreadyPunchedIn
                   else if find_one (\<lambda>l. l_user_id l = user_id \<and> l_is_active l = True)
                             (login_sessions s) = None
                   then Inl NotLoggedIn
                   else if find_one (\<lambda>p. p_user_id p = user_id \<and> punched_in_date p = date)
                             (punched_in s) \<noteq> None
                   then Inl AlreadyPunchedInToday
                   else Inr \<lparr>p_id = 0, p_user_id = user_id,
                               p_username = Some (u_username user), p_email = Some (u_email user),
                               punched_in_date = date, punched_in_time = tm,
                               p_location = location, p_latitude = latitude,
                               p_longitude = longitude, p_created_at = utcnow e,
                               p_punched_out = None\<rparr>)))"

definition punch_in_inserts :: "punch_doc \<Rightarrow> store \<Rightarrow> (error + reply) \<times> store" where
  "punch_in_inserts punch_in_data s =
     (let d = punch_in_data\<lparr>p_id := next_id s\<rparr>
      in (Inr (PunchInSuccessful d),
          s\<lparr>punched_in := punched_in s @ [d], attendance := attendance s @ [d],
            next_id := Suc (next_id s)\<rparr>))"

definition punch_out ::
  "env \<Rightarrow> string option \<Rightarrow> string option \<Rightarrow> string option \<Rightarrow> string option \<Rightarrow> store
     \<Rightarrow> (error + reply) \<times> store" where
  "punch_out e django_user location latitude longitude s =
     (case django_user of
        None \<Rightarrow> (Inl AuthenticationRequired, s)
      | Some django_email \<Rightarrow>
          (case get_by_email django_email s of
             None \<Rightarrow> (Inl UserNotFound, s)
           | Some user \<Rightarrow>
               (let user_id = u_id user;
                    date = strftime_date (now e);
                    tm = strftime_time (now e)
                in if get_active_session user_id s = None then (Inl NotLoggedIn, s)
                   else if find_one (\<lambda>p. p_user_id p = user_id) (punched_in s) = None
                   then (Inl NoPunchInFound, s)
                   else (case attendance_punch_out e user_id date tm location latitude longitude s of
                           (Inl err, s1) \<Rightarrow> (Inl err, s1)
                         | (Inr punch_out_data, s1) \<Rightarrow>
                             (Inr (PunchOutSuccessful punch_out_data),
                              s1\<lparr>attendance := update_one
                                   (\<lambda>p. p_user_id p = user_id \<and> p_punched_out p = None)
                                   (\<lambda>p. p\<lparr>p_punched_out := Some
                                      \<lparr>punched_out_date = date, punched_out_time = tm,
                                       punched_out_location = location,
                                       punched_out_latitude = latitude,
                                       punched_out_longitude = longitude,
                                       punched_out_at = utcnow e\<rparr>\<rparr>)
                                   (attendance s1)\<rparr>)))))"

definition logout :: "env \<Rightarrow> string option \<Rightarrow> string \<Rightarrow> store \<Rightarrow> (error + reply) \<times> store" where
  "logout e django_user device_type s =
     (case django_user of
        None \<Rightarrow> (Inl AuthenticationRequired, s)
      | Some django_email \<Rightarrow>
          (case get_by_email django_email s of
             None \<Rightarrow> (Inl UserNotFound, s)
           | Some user \<Rightarrow>
               (let s1 = snd (logout_create_session e (u_id user) device_type s)
                in (Inr LogoutSuccessful,
                    s1\<lparr>login_sessions := update_many
                         (\<lambda>l. l_user_id l = u_id user \<and> l_is_active l = True)
                         (\<lambda>l. l\<lparr>l_is_active := False\<rparr>) (login_sessions s1)\<rparr>))))"

section \<open>The operations of the core\<close>

text \<open>
  One constructor per route of \<^verbatim>\<open>urls.py\<close> that writes to the store, and one for the
  maintenance entry point \<^verbatim>\<open>perform_periodic_cleanup\<close>.
\<close>

datatype request =
    Signup string string string
  | VerifyOtp string string
  | Login string string string
  | ForgotPassword string
  | ResetPassword string string string
  | PunchIn "string option" "string option" "string option" "string option"
  | PunchOut "string option" "string option" "string option" "string option"
  | Logout "string option" string
  | PeriodicCleanup

fun handle :: "env \<Rightarrow> request \<Rightarrow> store \<Rightarrow> (error + reply) \<times> store" where
  "handle e (Signup user_name email password) s = signup e user_name email password s"
| "handle e (VerifyOtp email otp_code) s = verify_otp e email otp_code s"
| "handle e (Login email password device_type) s = login e email password device_type s"
| "handle e (ForgotPassword email) s = forgot_password e email s"
| "handle e (ResetPassword email otp_code new_password) s =
     reset_password e email otp_code new_password s"
| "handle e (PunchIn django_user location latitude longitude) s =
     punch_in e django_user location latitude longitude s"
| "handle e (PunchOut django_user location latitude longitude) s =
     punch_out e django_user location latitude longitude s"
| "handle e (Logout django_user device_type) s = logout e django_user device_type s"
| "handle e PeriodicCleanup s = (Inr CleanupDone, perform_periodic_cleanup e s)"

section \<open>A sample run\<close>

text \<open>
  The end-to-end example of the specification, run on the model: sign up, verify the
  e-mail, log in, punch in, punch out. The server's local time zone is UTC+5:30 and the
  random generator draws \<^verbatim>\<open>123456\<close>.
\<close>

definition at_second :: "int \<Rightarrow> env" where
  "at_second t = \<lparr>utcnow = timedelta 0 0 t, now = timedelta 0 0 t + timedelta 5 30 0,
                   random_digits = ''123456'', salt = ''NaCl''\<rparr>"

definition alice_unverified :: user_doc where
  "alice_unverified = \<lparr>u_id = 0, u_username = ''alice'', u_email = ''a@x.com'',
     u_password = Digest ''NaCl'' ''pw1'', u_is_verified = False, u_role = ''employee'',
     u_created_at = 19800000000, u_updated_at = 19800000000\<rparr>"

definition alice :: user_doc where
  "alice = alice_unverified\<lparr>u_is_verified := True, u_updated_at := 19860000000\<rparr>"

definition otp_signup :: otp_doc where
  "otp_signup = \<lparr>o_id = 1, o_email = ''a@x.com'', o_otp = ''123456'', o_purpose = ''signup'',
     o_is_used = False, o_created_at = 19800000000\<rparr>"

definition otp_forgot :: otp_doc where
  "otp_forgot = \<lparr>o_id = 3, o_email = ''a@x.com'', o_otp = ''123456'',
     o_purpose = ''forgot_password'', o_is_used = False, o_created_at = 19930000000\<rparr>"

definition session_web :: login_doc where
  "session_web = \<lparr>l_id = 2, l_user_id = 0, l_username = Some ''alice'', l_device_type = ''web'',
     l_login_time = 19920000000, l_is_active = True\<rparr>"

definition pointer_first :: punch_doc where
  "pointer_first = \<lparr>p_id = 3, p_user_id = 0, p_username = Some ''alice'',
     p_email = Some ''a@x.com'', punched_in_date = 0, punched_in_time = 19980,
     p_location = Some ''Office'', p_latitude = None, p_longitude = None,
     p_created_at = 180000000, p_punched_out = None\<rparr>"

definition punch_out_first :: punch_out_fields where
  "punch_out_first = \<lparr>punched_out_date = 0, punched_out_time = 20040,
     punched_out_location = Some ''Office'', punched_out_latitude = None,
     punched_out_longitude = None, punched_out_at = 20040000000\<rparr>"

definition st_signup :: store where
  "st_signup = snd (signup (at_second 0) ''alice'' ''a@x.com'' ''pw1'' empty_store)"

definition st_verified :: store where
  "st_verified = snd (verify_otp (at_second 60) ''a@x.com'' ''123456'' st_signup)"

definition st_login :: store where
  "st_login = snd (login (at_second 120) ''a@x.com'' ''pw1'' ''web'' st_verified)"

definition st_in :: store where
  "st_in = snd (punch_in (at_second 180) (Some ''a@x.com'') (Some ''Office'') None None st_login)"

definition st_out :: store where
  "st_out = snd (punch_out (at_second 240) (Some ''a@x.com'') (Some ''Office'') None None st_in)"

definition st_forgot :: store where
  "st_forgot = snd (forgot_password (at_second 130) ''a@x.com'' st_login)"

definition st_logged_out :: store where
  "st_logged_out = snd (logout (at_second 140) (Some ''a@x.com'') ''web'' st_forgot)"

definition st_in_logged_out :: store where
  "st_in_logged_out = snd (logout (at_second 200) (Some ''a@x.com'') ''web'' st_in)"

definition st_relogin :: store where
  "st_relogin = snd (login (at_second 200) ''a@x.com'' ''pw1'' ''mobile'' st_login)"



text \<open>
  A third run, from the first login on: logout at second 140, login again at second 160,
  a reset code at second 170, and a second logout at second 180.
\<close>

definition st_relogged :: store where
  "st_relogged =
     snd (forgot_password (at_second 170) ''a@x.com''
       (snd (login (at_second 160) ''a@x.com'' ''pw1'' ''web''
         (snd (logout (at_second 140) (Some ''a@x.com'') ''web'' st_login)))))"

definition st_relogged_out :: store where
  "st_relogged_out = snd (logout (at_second 180) (Some ''a@x.com'') ''web'' st_relogged)"

section \<open>Runs and invariants\<close>

fun run :: "(env \<times> request) list \<Rightarrow> store \<Rightarrow> store" where
  "run [] s = s"
| "run ((e, req) # rest) s = run rest (snd (handle e req s))"

text \<open>At most one document of \<^verbatim>\<open>punched_in\<close> per user.\<close>

definition one_pointer_per_user :: "store \<Rightarrow> bool" where
  "one_pointer_per_user s = distinct (map p_user_id (punched_in s))"

text \<open>
  User \<^verbatim>\<open>_id\<close>s are distinct and were handed out by the driver, and every login session
  belongs to a verified user of the store.
\<close>

definition sessions_of_verified_users :: "store \<Rightarrow> bool" where
  "sessions_of_verified_users s =
     ((\<forall>u\<in>set (users s). u_id u < next_id s) \<and>
      distinct (map u_id (users s)) \<and>
      (\<forall>l\<in>set (login_sessions s).
         \<exists>u\<in>set (users s). u_id u = l_user_id l \<and> u_is_verified u))"

text \<open>Login session \<^verbatim>\<open>_id\<close>s are distinct and were handed out by the driver.\<close>

definition login_session_ids_fresh :: "store \<Rightarrow> bool" where
  "login_session_ids_fresh s =
     ((\<forall>l\<in>set (login_sessions s). l_id l < next_id s) \<and> distinct (map l_id (login_sessions s)))"


section \<open>Properties\<close>

lemma timedelta_600: "timedelta 0 0 600 = 600000000"
  by (simp add: timedelta_def)

lemma timedelta_ten_minutes: "timedelta 0 10 0 = 600000000"
  by (simp add: timedelta_def)

lemma timedelta_ist: "timedelta 5 30 0 = 19800000000"
  by (simp add: timedelta_def)

subsection \<open>Collection primitives\<close>

lemma find_one_None: "find_one P xs = None \<longleftrightarrow> (\<forall>x\<in>set xs. \<not> P x)"
  by (auto simp: find_one_def find_None_iff)

lemma find_one_Some: "find_one P xs = Some x \<Longrightarrow> x \<in> set xs \<and> P x"
  by (auto simp: find_one_def find_Some_iff)

lemma greatest_by_None: "greatest_by key xs = None \<longleftrightarrow> xs = []"
  by (induction xs) (auto split: option.splits)

lemma greatest_by_mem: "greatest_by key xs = Some x \<Longrightarrow> x \<in> set xs"
  by (induction xs arbitrary: x) (auto split: option.splits if_splits)

lemma greatest_by_greatest: "greatest_by key xs = Some x \<Longrightarrow> y \<in> set xs \<Longrightarrow> key y \<le> key x"
proof (induction xs arbitrary: x)
  case Nil
  then show ?case by simp
next
  case (Cons a xs)
  show ?case
  proof (cases "greatest_by key xs")
    case None
    then have "xs = []" by (simp add: greatest_by_None)
    with Cons.prems None show ?thesis by simp
  next
    case (Some z)
    with Cons.prems Cons.IH [OF Some] show ?thesis
      by (fastforce split: if_splits)
  qed
qed

lemma find_one_sort_desc_None:
  "find_one_sort_desc P key xs = None \<longleftrightarrow> (\<forall>x\<in>set xs. \<not> P x)"
  by (simp add: find_one_sort_desc_def greatest_by_None filter_empty_conv)

lemma find_one_sort_desc_Some:
  "find_one_sort_desc P key xs = Some x \<Longrightarrow> x \<in> set xs \<and> P x"
  by (auto simp: find_one_sort_desc_def dest: greatest_by_mem)

lemma find_one_sort_desc_greatest:
  "find_one_sort_desc P key xs = Some x \<Longrightarrow> y \<in> set xs \<Longrightarrow> P y \<Longrightarrow> key y \<le> key x"
  by (auto simp: find_one_sort_desc_def dest: greatest_by_greatest)

lemma set_delete_one: "set (delete_one P xs) \<subseteq> set xs"
  by (induction xs) auto

lemma distinct_map_delete_one: "distinct (map f xs) \<Longrightarrow> distinct (map f (delete_one P xs))"
proof (induction xs)
  case Nil
  then show ?case by simp
next
  case (Cons a xs)
  have "f ` set (delete_one P xs) \<subseteq> f ` set xs"
    using set_delete_one [of P xs] by blast
  with Cons show ?case by auto
qed

lemma delete_one_no_match: "\<forall>x\<in>set xs. \<not> P x \<Longrightarrow> delete_one P xs = xs"
  by (induction xs) auto

lemma delete_one_distinct_key:
  "distinct (map f xs) \<Longrightarrow> delete_one (\<lambda>x. f x = k) xs = filter (\<lambda>x. f x \<noteq> k) xs"
proof (induction xs)
  case Nil
  then show ?case by simp
next
  case (Cons a xs)
  show ?case
  proof (cases "f a = k")
    case True
    with Cons.prems have "\<forall>x\<in>set xs. f x \<noteq> k" by (auto simp: image_iff)
    then have "filter (\<lambda>x. f x \<noteq> k) xs = xs" by (simp add: filter_id_conv)
    with True show ?thesis by simp
  next
    case False
    with Cons show ?thesis by simp
  qed
qed

subsection \<open>The sample run, evaluated\<close>

lemmas model_defs = signup_def verify_otp_def login_def punch_in_def punch_out_def create_user_def
  create_otp_def cleanup_unverified_users_def cleanup_otps_for_email_def cleanup_expired_otps_def
  insert_user_def find_one_def delete_many_def get_ist_time_def timedelta_def make_password_def
  generate_otp_def empty_store_def at_second_def get_latest_unused_def find_one_sort_desc_def
  is_valid_def otp_delete_def get_by_email_def verify_email_def save_def authenticate_def
  login_create_session_def logout_create_session_def get_by_id_def get_active_session_def
  attendance_punch_out_def strftime_date_def strftime_time_def forgot_password_def logout_def
  update_many_def reset_password_def logged_out_after_login_def get_latest_logout_def
  get_latest_login_def set_password_def

lemmas sample_defs = alice_unverified_def alice_def otp_signup_def otp_forgot_def session_web_def
  pointer_first_def punch_out_first_def

lemma st_signup_eq:
  "st_signup = empty_store\<lparr>users := [alice_unverified], otps := [otp_signup], next_id := 2\<rparr>"
  unfolding st_signup_def by (simp add: model_defs sample_defs Let_def)

lemma st_verified_eq:
  "st_verified = empty_store\<lparr>users := [alice], next_id := 2\<rparr>"
  unfolding st_verified_def st_signup_eq by (simp add: model_defs sample_defs Let_def)

lemma st_login_eq:
  "st_login = empty_store\<lparr>users := [alice], login_sessions := [session_web], next_id := 3\<rparr>"
  unfolding st_login_def st_verified_eq by (simp add: model_defs sample_defs Let_def)

lemma st_in_eq:
  "st_in = empty_store\<lparr>users := [alice], login_sessions := [session_web],
     punched_in := [pointer_first], attendance := [pointer_first], next_id := 4\<rparr>"
  unfolding st_in_def st_login_eq by (simp add: model_defs sample_defs Let_def)

lemma st_out_eq:
  "st_out = empty_store\<lparr>users := [alice], login_sessions := [session_web],
     punched_out := [pointer_first\<lparr>p_punched_out := Some punch_out_first\<rparr>],
     attendance := [pointer_first\<lparr>p_punched_out :=
                      Some (punch_out_first\<lparr>punched_out_at := 240000000\<rparr>)\<rparr>],
     next_id := 4\<rparr>"
  unfolding st_out_def st_in_eq by (simp add: model_defs sample_defs Let_def)

lemma st_forgot_eq:
  "st_forgot = empty_store\<lparr>users := [alice], otps := [otp_forgot],
     login_sessions := [session_web], next_id := 4\<rparr>"
  unfolding st_forgot_def st_login_eq by (simp add: model_defs sample_defs Let_def)

lemma st_logged_out_eq:
  "st_logged_out = empty_store\<lparr>users := [alice], otps := [otp_forgot],
     login_sessions := [session_web\<lparr>l_is_active := False\<rparr>],
     logout_sessions := [\<lparr>lo_id = 4, lo_user_id = 0, lo_device_type = ''web'',
                          lo_logout_time = 19940000000\<rparr>],
     next_id := 5\<rparr>"
  unfolding st_logged_out_def st_forgot_eq by (simp add: model_defs sample_defs Let_def)

lemma st_in_logged_out_eq:
  "st_in_logged_out = empty_store\<lparr>users := [alice],
     login_sessions := [session_web\<lparr>l_is_active := False\<rparr>],
     logout_sessions := [\<lparr>lo_id = 4, lo_user_id = 0, lo_device_type = ''web'',
                          lo_logout_time = 20000000000\<rparr>],
     punched_in := [pointer_first], attendance := [pointer_first], next_id := 5\<rparr>"
  unfolding st_in_logged_out_def st_in_eq by (simp add: model_defs sample_defs Let_def)

lemma st_relogin_eq:
  "st_relogin = empty_store\<lparr>users := [alice],
     login_sessions := [session_web\<lparr>l_is_active := False\<rparr>,
        \<lparr>l_id = 4, l_user_id = 0, l_username = Some ''alice'', l_device_type = ''mobile'',
         l_login_time = 20000000000, l_is_active = True\<rparr>],
     logout_sessions := [\<lparr>lo_id = 3, lo_user_id = 0, lo_device_type = ''mobile'',
                          lo_logout_time = 20000000000\<rparr>],
     next_id := 5\<rparr>"
  unfolding st_relogin_def st_login_eq by (simp add: model_defs sample_defs Let_def)

subsection \<open>OTP validity window\<close>

lemma get_latest_unused_Some:
  "get_latest_unused email purpose s = Some otp \<Longrightarrow>
     otp \<in> set (otps s) \<and> o_email otp = email \<and> o_purpose otp = purpose \<and> o_is_used otp = False"
  unfolding get_latest_unused_def by (drule find_one_sort_desc_Some) simp

lemma is_valid_unused:
  "o_is_used otp = False \<Longrightarrow>
     is_valid e otp \<longleftrightarrow> get_ist_time e - o_created_at otp < timedelta 0 0 600"
  by (simp add: is_valid_def)

text \<open>
  The validity predicate and the signup path. An unused OTP is valid exactly when fewer
  than 600 seconds separate the clock of the check from its \<open>created_at\<close>. When the
  latest unused signup OTP carries the submitted code, \<open>verify_otp\<close> 599 seconds after
  creation consumes the OTP and goes on to the user lookup, and 601 seconds after creation
  it answers \<open>OTPExpired\<close> and leaves the store as it was.
\<close>

theorem otp_valid_iff_younger_than_600s:
  "(o_is_used otp = False \<longrightarrow>
      (is_valid e otp \<longleftrightarrow> get_ist_time e - o_created_at otp < timedelta 0 0 600)) \<and>
   (get_latest_unused email ''signup'' s = Some otp \<and> o_otp otp = otp_code \<longrightarrow>
      (get_ist_time e = o_created_at otp + timedelta 0 0 599 \<longrightarrow>
         is_valid e otp \<and>
         verify_otp e email otp_code s =
           (case get_by_email email (otp_delete otp s) of
              Some user \<Rightarrow> (Inr EmailVerified, verify_email e user (otp_delete otp s))
            | None \<Rightarrow> (Inl UserNotFound, otp_delete otp s))) \<and>
      (get_ist_time e = o_created_at otp + timedelta 0 0 601 \<longrightarrow>
         \<not> is_valid e otp \<and> verify_otp e email otp_code s = (Inl OTPExpired, s)))"
proof (intro conjI impI)
  assume "o_is_used otp = False"
  then show "is_valid e otp \<longleftrightarrow> get_ist_time e - o_created_at otp < timedelta 0 0 600"
    by (rule is_valid_unused)
next
  assume latest: "get_latest_unused email ''signup'' s = Some otp \<and> o_otp otp = otp_code"
    and t: "get_ist_time e = o_created_at otp + timedelta 0 0 599"
  from latest have unused: "o_is_used otp = False"
    by (auto dest: get_latest_unused_Some)
  with t show valid: "is_valid e otp"
    by (simp add: is_valid_def timedelta_def)
  from latest valid show "verify_otp e email otp_code s =
      (case get_by_email email (otp_delete otp s) of
         Some user \<Rightarrow> (Inr EmailVerified, verify_email e user (otp_delete otp s))
       | None \<Rightarrow> (Inl UserNotFound, otp_delete otp s))"
    by (simp add: verify_otp_def Let_def split: option.splits)
next
  assume latest: "get_latest_unused email ''signup'' s = Some otp \<and> o_otp otp = otp_code"
    and t: "get_ist_time e = o_created_at otp + timedelta 0 0 601"
  from latest have unused: "o_is_used otp = False"
    by (auto dest: get_latest_unused_Some)
  with t show invalid: "\<not> is_valid e otp"
    by (simp add: is_valid_def timedelta_def)
  from latest invalid show "verify_otp e email otp_code s = (Inl OTPExpired, s)"
    by (simp add: verify_otp_def)
qed

theorem otp_valid_iff_younger_than_600s_witness:
  "is_valid (at_second 599) otp_signup \<and>
   verify_otp (at_second 599) ''a@x.com'' ''123456'' st_signup
     = (Inr EmailVerified, verify_email (at_second 599) alice_unverified (otp_delete otp_signup st_signup)) \<and>
   \<not> is_valid (at_second 601) otp_signup \<and>
   verify_otp (at_second 601) ''a@x.com'' ''123456'' st_signup = (Inl OTPExpired, st_signup)"
proof -
  have latest: "get_latest_unused ''a@x.com'' ''signup'' st_signup = Some otp_signup"
    unfolding st_signup_eq by (simp add: model_defs sample_defs)
  have code: "o_otp otp_signup = ''123456''" and unused: "o_is_used otp_signup = False"
    by (simp_all add: otp_signup_def)
  have t599: "get_ist_time (at_second 599) = o_created_at otp_signup + timedelta 0 0 599"
    and t601: "get_ist_time (at_second 601) = o_created_at otp_signup + timedelta 0 0 601"
    by (simp_all add: get_ist_time_def at_second_def timedelta_def otp_signup_def)
  have user: "get_by_email ''a@x.com'' (otp_delete otp_signup st_signup) = Some alice_unverified"
    unfolding st_signup_eq by (simp add: model_defs sample_defs)
  from otp_valid_iff_younger_than_600s
         [of otp_signup "at_second 599" "''a@x.com''" st_signup "''123456''"]
       otp_valid_iff_younger_than_600s
         [of otp_signup "at_second 601" "''a@x.com''" st_signup "''123456''"]
       latest code t599 t601 user
  show ?thesis by simp
qed

lemma verify_otp_expired_iff:
  "get_latest_unused email ''signup'' s = Some otp \<Longrightarrow> o_otp otp = otp_code \<Longrightarrow>
     (verify_otp e email otp_code s = (Inl OTPExpired, s)) =
     (timedelta 0 0 600 \<le> get_ist_time e - o_created_at otp)"
proof -
  assume latest: "get_latest_unused email ''signup'' s = Some otp" and code: "o_otp otp = otp_code"
  from latest have unused: "o_is_used otp = False" by (auto dest: get_latest_unused_Some)
  show ?thesis
  proof (cases "is_valid e otp")
    case True
    with latest code have "fst (verify_otp e email otp_code s) \<noteq> Inl OTPExpired"
      by (simp add: verify_otp_def Let_def split: option.splits)
    then have "verify_otp e email otp_code s \<noteq> (Inl OTPExpired, s)" by auto
    with True unused show ?thesis by (simp add: is_valid_def)
  next
    case False
    with latest code have "verify_otp e email otp_code s = (Inl OTPExpired, s)"
      by (simp add: verify_otp_def)
    with False unused show ?thesis by (simp add: is_valid_def)
  qed
qed

lemma reset_password_never_answers_expired:
  "fst (reset_password e email otp_code new_password s) \<noteq> Inl OTPExpired"
  by (simp add: reset_password_def Let_def split: option.splits)

text \<open>
  Claim C9, evaluated on the sample run. The reset OTP of the sample run is unused and was
  created at second 130. Checked with its own code 599 seconds later it is valid and
  \<open>reset_password\<close> accepts it; checked 601 seconds later it is no longer valid, and
  \<open>reset_password\<close> accepts it all the same instead of answering \<open>OTPExpired\<close>.
\<close>

theorem reset_otp_accepted_601s_after_creation:
  "get_latest_unused ''a@x.com'' ''forgot_password'' st_forgot = Some otp_forgot \<and>
   o_is_used otp_forgot = False \<and> o_otp otp_forgot = ''123456'' \<and>
   get_ist_time (at_second 729) = o_created_at otp_forgot + timedelta 0 0 599 \<and>
   get_ist_time (at_second 731) = o_created_at otp_forgot + timedelta 0 0 601 \<and>
   is_valid (at_second 729) otp_forgot \<and>
   \<not> is_valid (at_second 731) otp_forgot \<and>
   fst (reset_password (at_second 729) ''a@x.com'' ''123456'' ''pw2'' st_forgot)
     = Inr PasswordReset \<and>
   fst (reset_password (at_second 731) ''a@x.com'' ''123456'' ''pw2'' st_forgot)
     = Inr PasswordReset \<and>
   fst (reset_password (at_second 731) ''a@x.com'' ''123456'' ''pw2'' st_forgot)
     \<noteq> Inl OTPExpired"
  unfolding st_forgot_eq by (simp add: model_defs sample_defs Let_def)

subsection \<open>The session guard of the password reset\<close>

lemma get_latest_logout_latest:
  "get_latest_logout user_id s = Some latest_logout \<Longrightarrow>
     latest_logout \<in> set (logout_sessions s) \<and> lo_user_id latest_logout = user_id \<and>
     (\<forall>l\<in>set (logout_sessions s). lo_user_id l = user_id \<longrightarrow>
        lo_logout_time l \<le> lo_logout_time latest_logout)"
  unfolding get_latest_logout_def
  by (auto dest: find_one_sort_desc_Some find_one_sort_desc_greatest)

lemma get_latest_logout_None:
  "get_latest_logout user_id s = None \<longleftrightarrow> (\<forall>l\<in>set (logout_sessions s). lo_user_id l \<noteq> user_id)"
  unfolding get_latest_logout_def by (simp add: find_one_sort_desc_None)

lemma get_latest_login_latest:
  "get_latest_login user_id s = Some latest_login \<Longrightarrow>
     latest_login \<in> set (login_sessions s) \<and> l_user_id latest_login = user_id \<and>
     (\<forall>l\<in>set (login_sessions s). l_user_id l = user_id \<longrightarrow>
        l_login_time l \<le> l_login_time latest_login)"
  unfolding get_latest_login_def
  by (auto dest: find_one_sort_desc_Some find_one_sort_desc_greatest)

lemma get_latest_login_None:
  "get_latest_login user_id s = None \<longleftrightarrow> (\<forall>l\<in>set (login_sessions s). l_user_id l \<noteq> user_id)"
  unfolding get_latest_login_def by (simp add: find_one_sort_desc_None)

lemma greatest_by_Max: "greatest_by key xs = Some x \<Longrightarrow> key x = Max (set (map key xs))"
proof -
  assume g: "greatest_by key xs = Some x"
  have "Max (key ` set xs) = key x"
  proof (rule Max_eqI)
    show "finite (key ` set xs)" by simp
    show "key x \<in> key ` set xs" using greatest_by_mem [OF g] by simp
    fix y assume "y \<in> key ` set xs"
    then show "y \<le> key x" using greatest_by_greatest [OF g] by auto
  qed
  then show ?thesis by simp
qed

lemma get_latest_logout_time:
  "get_latest_logout user_id s = Some latest_logout \<Longrightarrow>
     lo_logout_time latest_logout =
       Max (set (map lo_logout_time (filter (\<lambda>l. lo_user_id l = user_id) (logout_sessions s))))"
  unfolding get_latest_logout_def find_one_sort_desc_def by (rule greatest_by_Max)

lemma get_latest_login_time:
  "get_latest_login user_id s = Some latest_login \<Longrightarrow>
     l_login_time latest_login =
       Max (set (map l_login_time (filter (\<lambda>l. l_user_id l = user_id) (login_sessions s))))"
  unfolding get_latest_login_def find_one_sort_desc_def by (rule greatest_by_Max)

lemma get_latest_logout_None_filter:
  "get_latest_logout user_id s = None \<longleftrightarrow>
     filter (\<lambda>l. lo_user_id l = user_id) (logout_sessions s) = []"
  by (simp add: get_latest_logout_def find_one_sort_desc_def greatest_by_None)

lemma get_latest_login_None_filter:
  "get_latest_login user_id s = None \<longleftrightarrow>
     filter (\<lambda>l. l_user_id l = user_id) (login_sessions s) = []"
  by (simp add: get_latest_login_def find_one_sort_desc_def greatest_by_None)

text \<open>
  Claim C6. For an existing user, \<open>reset_password\<close> answers \<open>SessionInvalidated\<close>
  exactly when the user has a logout session and a login session on record and the
  greatest \<open>logout_time\<close> of the user's logout sessions is strictly greater than the
  greatest \<open>login_time\<close> of the user's login sessions. With no logout on record, or with
  a latest login at least as new as the latest logout, the answer is not
  \<open>SessionInvalidated\<close>.
\<close>

theorem reset_rejected_iff_latest_logout_after_latest_login:
  "get_by_email email s = Some user \<Longrightarrow>
     (fst (reset_password e email otp_code new_password s) = Inl SessionInvalidated) =
     (filter (\<lambda>l. lo_user_id l = u_id user) (logout_sessions s) \<noteq> [] \<and>
      filter (\<lambda>l. l_user_id l = u_id user) (login_sessions s) \<noteq> [] \<and>
      Max (set (map l_login_time (filter (\<lambda>l. l_user_id l = u_id user) (login_sessions s))))
        < Max (set (map lo_logout_time
                      (filter (\<lambda>l. lo_user_id l = u_id user) (logout_sessions s)))))"
proof -
  assume user: "get_by_email email s = Some user"
  let ?rejected = "fst (reset_password e email otp_code new_password s) = Inl SessionInvalidated"
  have guard: "?rejected = logged_out_after_login (u_id user) s"
    using user by (auto simp: reset_password_def Let_def split: option.splits)
  show ?thesis
  proof (cases "get_latest_logout (u_id user) s")
    case None
    then have "filter (\<lambda>l. lo_user_id l = u_id user) (logout_sessions s) = []"
      using get_latest_logout_None_filter [of "u_id user" s] by simp
    with None guard show ?thesis
      by (simp add: logged_out_after_login_def)
  next
    case lo: (Some latest_logout)
    then have lo_ne: "filter (\<lambda>l. lo_user_id l = u_id user) (logout_sessions s) \<noteq> []"
      using get_latest_logout_None_filter [of "u_id user" s] by simp
    show ?thesis
    proof (cases "get_latest_login (u_id user) s")
      case None
      then have "filter (\<lambda>l. l_user_id l = u_id user) (login_sessions s) = []"
        using get_latest_login_None_filter [of "u_id user" s] by simp
      with None guard lo show ?thesis
        by (simp add: logged_out_after_login_def)
    next
      case li: (Some latest_login)
      then have li_ne: "filter (\<lambda>l. l_user_id l = u_id user) (login_sessions s) \<noteq> []"
        using get_latest_login_None_filter [of "u_id user" s] by simp
      from guard lo li have "?rejected = (l_login_time latest_login < lo_logout_time latest_logout)"
        by (simp add: logged_out_after_login_def)
      with lo_ne li_ne show ?thesis
        by (simp only: get_latest_logout_time [OF lo] get_latest_login_time [OF li] simp_thms)
    qed
  qed
qed

lemma st_relogged_eq:
  "st_relogged = empty_store\<lparr>users := [alice],
     otps := [otp_forgot\<lparr>o_id := 5, o_created_at := 19970000000\<rparr>],
     login_sessions := [session_web\<lparr>l_is_active := False\<rparr>,
        session_web\<lparr>l_id := 4, l_login_time := 19960000000\<rparr>],
     logout_sessions := [\<lparr>lo_id = 3, lo_user_id = 0, lo_device_type = ''web'',
                          lo_logout_time = 19940000000\<rparr>],
     next_id := 6\<rparr>"
  unfolding st_relogged_def st_login_eq by (simp add: model_defs sample_defs Let_def)

lemma st_relogged_out_eq:
  "st_relogged_out = empty_store\<lparr>users := [alice],
     otps := [otp_forgot\<lparr>o_id := 5, o_created_at := 19970000000\<rparr>],
     login_sessions := [session_web\<lparr>l_is_active := False\<rparr>,
        session_web\<lparr>l_id := 4, l_login_time := 19960000000, l_is_active := False\<rparr>],
     logout_sessions := [\<lparr>lo_id = 3, lo_user_id = 0, lo_device_type = ''web'',
                          lo_logout_time = 19940000000\<rparr>,
                         \<lparr>lo_id = 6, lo_user_id = 0, lo_device_type = ''web'',
                          lo_logout_time = 19980000000\<rparr>],
     next_id := 7\<rparr>"
  unfolding st_relogged_out_def st_relogged_eq by (simp add: model_defs sample_defs Let_def)

theorem reset_rejected_iff_latest_logout_after_latest_login_witness:
  "map l_login_time (login_sessions st_relogged) = [19920000000, 19960000000] \<and>
   map lo_logout_time (logout_sessions st_relogged) = [19940000000] \<and>
   fst (reset_password (at_second 175) ''a@x.com'' ''123456'' ''pw2'' st_relogged)
     \<noteq> Inl SessionInvalidated \<and>
   map l_login_time (login_sessions st_relogged_out) = [19920000000, 19960000000] \<and>
   map lo_logout_time (logout_sessions st_relogged_out) = [19940000000, 19980000000] \<and>
   fst (reset_password (at_second 190) ''a@x.com'' ''123456'' ''pw2'' st_relogged_out)
     = Inl SessionInvalidated"
proof -
  have u1: "get_by_email ''a@x.com'' st_relogged = Some alice"
    and u2: "get_by_email ''a@x.com'' st_relogged_out = Some alice"
    unfolding st_relogged_eq st_relogged_out_eq by (simp_all add: model_defs sample_defs)
  have times: "map l_login_time (login_sessions st_relogged) = [19920000000, 19960000000]"
    "map lo_logout_time (logout_sessions st_relogged) = [19940000000]"
    "map l_login_time (login_sessions st_relogged_out) = [19920000000, 19960000000]"
    "map lo_logout_time (logout_sessions st_relogged_out) = [19940000000, 19980000000]"
    unfolding st_relogged_eq st_relogged_out_eq by (simp_all add: model_defs sample_defs)
  have f1: "filter (\<lambda>l. l_user_id l = u_id alice) (login_sessions st_relogged)
              = login_sessions st_relogged"
    "filter (\<lambda>l. lo_user_id l = u_id alice) (logout_sessions st_relogged)
              = logout_sessions st_relogged"
    "filter (\<lambda>l. l_user_id l = u_id alice) (login_sessions st_relogged_out)
              = login_sessions st_relogged_out"
    "filter (\<lambda>l. lo_user_id l = u_id alice) (logout_sessions st_relogged_out)
              = logout_sessions st_relogged_out"
    unfolding st_relogged_eq st_relogged_out_eq by (simp_all add: model_defs sample_defs)
  have ne: "login_sessions st_relogged \<noteq> []" "logout_sessions st_relogged \<noteq> []"
    "login_sessions st_relogged_out \<noteq> []" "logout_sessions st_relogged_out \<noteq> []"
    unfolding st_relogged_eq st_relogged_out_eq by (simp_all add: model_defs)
  from reset_rejected_iff_latest_logout_after_latest_login
         [OF u1, of "at_second 175" "''123456''" "''pw2''"]
       reset_rejected_iff_latest_logout_after_latest_login
         [OF u2, of "at_second 190" "''123456''" "''pw2''"]
  show ?thesis
    unfolding f1 by (simp add: times ne)
qed

subsection \<open>Punch-in: order of the checks\<close>

lemma punch_in_pointer_first:
  "get_by_email django_email s = Some user \<Longrightarrow>
   \<exists>p\<in>set (punched_in s). p_user_id p = u_id user \<Longrightarrow>
   punch_in e (Some django_email) location latitude longitude s = (Inl AlreadyPunchedIn, s)"
  by (simp add: punch_in_def Let_def find_one_None)

lemma active_session_lookups_agree:
  "find_one (\<lambda>l. l_user_id l = user_id \<and> l_is_active l = True) (login_sessions s) = None
     \<longleftrightarrow> get_active_session user_id s = None"
  by (simp add: find_one_None get_active_session_def find_one_sort_desc_None)

text \<open>
  The third check of \<open>punch_in\<close> looks for a \<^verbatim>\<open>punched_in\<close> document of the user with
  today's date after the first check has found no \<^verbatim>\<open>punched_in\<close> document of the user
  at all, so it never answers.
\<close>

lemma punch_in_never_already_today:
  "fst (punch_in e django_user location latitude longitude s) \<noteq> Inl AlreadyPunchedInToday"
  by (auto simp: punch_in_def Let_def find_one_None split: option.splits)

text \<open>
  Claim C3, as amended. For an existing user \<open>punch_in\<close> looks for a \<^verbatim>\<open>punched_in\<close>
  document first and for an active session second: with a pointer on record the answer is
  \<open>AlreadyPunchedIn\<close> whether or not a session is active, and with no pointer and no
  active session it is \<open>NotLoggedIn\<close>; both leave the store as it was.
\<close>

theorem punch_in_checks_pointer_before_session:
  "get_by_email django_email s = Some user \<Longrightarrow>
     ((\<exists>p\<in>set (punched_in s). p_user_id p = u_id user) \<longrightarrow>
        punch_in e (Some django_email) location latitude longitude s = (Inl AlreadyPunchedIn, s)) \<and>
     (\<not> (\<exists>p\<in>set (punched_in s). p_user_id p = u_id user) \<and>
      get_active_session (u_id user) s = None \<longrightarrow>
        punch_in e (Some django_email) location latitude longitude s = (Inl NotLoggedIn, s))"
proof (intro conjI impI)
  assume "get_by_email django_email s = Some user"
    and "\<exists>p\<in>set (punched_in s). p_user_id p = u_id user"
  then show "punch_in e (Some django_email) location latitude longitude s
               = (Inl AlreadyPunchedIn, s)"
    by (rule punch_in_pointer_first)
next
  assume user: "get_by_email django_email s = Some user"
    and *: "\<not> (\<exists>p\<in>set (punched_in s). p_user_id p = u_id user) \<and>
            get_active_session (u_id user) s = None"
  from * have "find_one (\<lambda>p. p_user_id p = u_id user) (punched_in s) = None"
    by (simp add: find_one_None)
  moreover from * have
    "find_one (\<lambda>l. l_user_id l = u_id user \<and> l_is_active l = True) (login_sessions s) = None"
    using active_session_lookups_agree [of "u_id user" s] by simp
  ultimately show "punch_in e (Some django_email) location latitude longitude s
                     = (Inl NotLoggedIn, s)"
    using user by (simp add: punch_in_def Let_def)
qed

theorem punch_in_checks_pointer_before_session_witness:
  "punch_in (at_second 210) (Some ''a@x.com'') (Some ''Office'') None None st_in_logged_out
     = (Inl AlreadyPunchedIn, st_in_logged_out) \<and>
   punch_in (at_second 210) (Some ''a@x.com'') (Some ''Office'') None None st_logged_out
     = (Inl NotLoggedIn, st_logged_out)"
proof -
  have u1: "get_by_email ''a@x.com'' st_in_logged_out = Some alice"
    and u2: "get_by_email ''a@x.com'' st_logged_out = Some alice"
    unfolding st_in_logged_out_eq st_logged_out_eq by (simp_all add: model_defs sample_defs)
  have p1: "\<exists>p\<in>set (punched_in st_in_logged_out). p_user_id p = u_id alice"
    unfolding st_in_logged_out_eq by (simp add: model_defs sample_defs)
  have p2: "\<not> (\<exists>p\<in>set (punched_in st_logged_out). p_user_id p = u_id alice)"
    and a2: "get_active_session (u_id alice) st_logged_out = None"
    unfolding st_logged_out_eq by (simp_all add: model_defs sample_defs)
  from punch_in_checks_pointer_before_session
         [OF u1, of "at_second 210" "Some ''Office''" None None]
       punch_in_checks_pointer_before_session
         [OF u2, of "at_second 210" "Some ''Office''" None None]
       p1 p2 a2
  show ?thesis by blast
qed

text \<open>
  Claim C3, as stated, fails: after punch-in and logout the user has a pointer and no
  active session, and the next punch-in is answered \<open>AlreadyPunchedIn\<close>, not
  \<open>NotLoggedIn\<close>.
\<close>

theorem punch_in_session_check_first_counterexample:
  "get_active_session 0 st_in_logged_out = None \<and>
   map p_user_id (punched_in st_in_logged_out) = [0] \<and>
   map u_id (users st_in_logged_out) = [0] \<and>
   fst (punch_in (at_second 210) (Some ''a@x.com'') (Some ''Office'') None None st_in_logged_out)
     = Inl AlreadyPunchedIn \<and>
   fst (punch_in (at_second 210) (Some ''a@x.com'') (Some ''Office'') None None st_in_logged_out)
     \<noteq> Inl NotLoggedIn"
  unfolding st_in_logged_out_eq by (simp add: model_defs sample_defs Let_def)

subsection \<open>Punch-in twice on one day\<close>

text \<open>
  Claim C1, evaluated on the sample run: the first punch-in (second 180) and the punch-in
  after the punch-out (second 300) fall on the same day; the second one succeeds, and the
  attendance collection then holds two punch-in records of user 0 for day 0.
\<close>

theorem second_punch_in_same_day_succeeds:
  "strftime_date (now (at_second 180)) = strftime_date (now (at_second 300)) \<and>
   fst (punch_in (at_second 300) (Some ''a@x.com'') (Some ''Office'') None None st_out)
     = Inr (PunchInSuccessful (pointer_first\<lparr>p_id := 4, punched_in_time := 20100,
                                               p_created_at := 300000000\<rparr>)) \<and>
   map (\<lambda>p. (p_user_id p, punched_in_date p))
       (attendance (snd (punch_in (at_second 300) (Some ''a@x.com'') (Some ''Office'') None None
                           st_out)))
     = [(0, 0), (0, 0)]"
  unfolding st_out_eq by (simp add: model_defs sample_defs Let_def)

subsection \<open>Password reset with an expired OTP\<close>

text \<open>
  Claim C4, evaluated on the sample run: the reset OTP was created at second 130; at second
  731 it is 601 seconds old and not valid, yet \<open>reset_password\<close> with its code answers
  \<open>PasswordReset\<close> and stores the new password.
\<close>

theorem reset_password_accepts_expired_otp:
  "get_latest_unused ''a@x.com'' ''forgot_password'' st_forgot = Some otp_forgot \<and>
   get_ist_time (at_second 731) - o_created_at otp_forgot = timedelta 0 0 601 \<and>
   \<not> is_valid (at_second 731) otp_forgot \<and>
   fst (reset_password (at_second 731) ''a@x.com'' ''123456'' ''pw2'' st_forgot)
     = Inr PasswordReset \<and>
   map u_password (users st_forgot) = [Digest ''NaCl'' ''pw1''] \<and>
   map u_password
       (users (snd (reset_password (at_second 731) ''a@x.com'' ''123456'' ''pw2'' st_forgot)))
     = [Digest ''NaCl'' ''pw2'']"
  unfolding st_forgot_eq by (simp add: model_defs sample_defs Let_def)

subsection \<open>Time bases of the punch records\<close>

text \<open>
  Claim C8, evaluated on the sample run: the punch-in record written at second 180 carries
  \<^verbatim>\<open>datetime.utcnow()\<close> as \<open>created_at\<close>, 19800 seconds behind \<open>get_ist_time\<close>; the
  punch-out at second 240 writes \<open>get_ist_time\<close> into the \<^verbatim>\<open>punched_out\<close> collection
  and \<^verbatim>\<open>datetime.utcnow()\<close> into the attendance collection.
\<close>

theorem punch_records_use_naive_utc:
  "map p_created_at (attendance st_in) = [utcnow (at_second 180)] \<and>
   map p_created_at (punched_in st_in) = [utcnow (at_second 180)] \<and>
   get_ist_time (at_second 180) = utcnow (at_second 180) + 19800000000 \<and>
   map (map_option punched_out_at \<circ> p_punched_out) (punched_out st_out)
     = [Some (get_ist_time (at_second 240))] \<and>
   map (map_option punched_out_at \<circ> p_punched_out) (attendance st_out)
     = [Some (utcnow (at_second 240))] \<and>
   get_ist_time (at_second 240) \<noteq> utcnow (at_second 240)"
  unfolding st_in_eq st_out_eq by (simp add: model_defs sample_defs Let_def)

subsection \<open>At most one pointer per user\<close>

lemma punched_in_cleanup_unverified_users [simp]:
  "punched_in (cleanup_unverified_users e email s) = punched_in s"
  by (simp add: cleanup_unverified_users_def cleanup_otps_for_email_def Let_def)

lemma punched_in_cleanup_expired_otps [simp]:
  "punched_in (cleanup_expired_otps e email s) = punched_in s"
  by (simp add: cleanup_expired_otps_def Let_def)

lemma punched_in_create_user [simp]:
  "punched_in (snd (create_user e username email password role s)) = punched_in s"
  by (simp add: create_user_def insert_user_def Let_def split: option.splits)

lemma punched_in_create_otp [simp]:
  "punched_in (snd (create_otp e email purpose s)) = punched_in s"
  by (simp add: create_otp_def Let_def)

lemma punched_in_signup [simp]:
  "punched_in (snd (signup e user_name email password s)) = punched_in s"
proof (cases "create_user e user_name email password ''employee'' s")
  case (Pair r s1)
  have "punched_in s1 = punched_in s"
    using punched_in_create_user [of e user_name email password "''employee''" s] Pair by simp
  with Pair show ?thesis
    by (cases r) (simp_all add: signup_def split_beta)
qed

lemma punched_in_verify_otp [simp]:
  "punched_in (snd (verify_otp e email otp_code s)) = punched_in s"
  by (simp add: verify_otp_def otp_delete_def verify_email_def save_def Let_def
           split: option.splits)

lemma punched_in_logout_create_session [simp]:
  "punched_in (snd (logout_create_session e user_id device_type s)) = punched_in s"
  by (simp add: logout_create_session_def Let_def)

lemma punched_in_logout_previous_sessions [simp]:
  "punched_in (logout_previous_sessions e user_id device_type active_sessions s) = punched_in s"
  by (induction active_sessions arbitrary: s) simp_all

lemma punched_in_login [simp]:
  "punched_in (snd (login e email password device_type s)) = punched_in s"
  by (simp add: login_def login_create_session_def Let_def split: option.splits)

lemma punched_in_forgot_password [simp]:
  "punched_in (snd (forgot_password e email s)) = punched_in s"
  by (simp add: forgot_password_def split_beta split: option.splits)

lemma punched_in_reset_password [simp]:
  "punched_in (snd (reset_password e email otp_code new_password s)) = punched_in s"
  by (simp add: reset_password_def otp_delete_def set_password_def save_def Let_def
           split: option.splits)

lemma punched_in_logout [simp]:
  "punched_in (snd (logout e django_user device_type s)) = punched_in s"
  by (simp add: logout_def Let_def split: option.splits)

lemma punched_in_perform_periodic_cleanup [simp]:
  "punched_in (perform_periodic_cleanup e s) = punched_in s"
  by (simp add: perform_periodic_cleanup_def)

lemma one_pointer_punch_in:
  "one_pointer_per_user s \<Longrightarrow>
   one_pointer_per_user (snd (punch_in e django_user location latitude longitude s))"
  by (auto simp: punch_in_def one_pointer_per_user_def Let_def find_one_None
           split: option.splits)

lemma one_pointer_attendance_punch_in:
  "one_pointer_per_user s \<Longrightarrow>
   one_pointer_per_user (snd (attendance_punch_in e user_id date tm location latitude longitude s))"
  by (auto simp: attendance_punch_in_def one_pointer_per_user_def Let_def find_one_None
           split: option.splits)

lemma one_pointer_attendance_punch_out:
  "one_pointer_per_user s \<Longrightarrow>
   one_pointer_per_user (snd (attendance_punch_out e user_id date tm location latitude longitude s))"
  by (auto simp: attendance_punch_out_def one_pointer_per_user_def Let_def
           intro: distinct_map_delete_one split: option.splits)

lemma one_pointer_punch_out:
  "one_pointer_per_user s \<Longrightarrow>
   one_pointer_per_user (snd (punch_out e django_user location latitude longitude s))"
proof -
  assume inv: "one_pointer_per_user s"
  have *: "\<And>user_id date tm. one_pointer_per_user
      (snd (attendance_punch_out e user_id date tm location latitude longitude s))"
    using inv by (rule one_pointer_attendance_punch_out)
  show ?thesis
  proof (cases django_user)
    case None
    with inv show ?thesis by (simp add: punch_out_def)
  next
    case (Some django_email)
    show ?thesis
    proof (cases "get_by_email django_email s")
      case None
      with Some inv show ?thesis by (simp add: punch_out_def)
    next
      case (Some user)
      obtain r s1 where out: "attendance_punch_out e (u_id user) (strftime_date (now e))
          (strftime_time (now e)) location latitude longitude s = (r, s1)"
        by (cases "attendance_punch_out e (u_id user) (strftime_date (now e))
          (strftime_time (now e)) location latitude longitude s")
      with * [of "u_id user" "strftime_date (now e)" "strftime_time (now e)"]
      have "one_pointer_per_user s1" by simp
      with out inv Some \<open>django_user = Some django_email\<close> show ?thesis
        by (cases r) (simp_all add: punch_out_def Let_def one_pointer_per_user_def)
    qed
  qed
qed

lemma one_pointer_handle:
  "one_pointer_per_user s \<Longrightarrow> one_pointer_per_user (snd (handle e req s))"
  by (cases req)
     (simp_all add: one_pointer_punch_in one_pointer_punch_out, simp_all add: one_pointer_per_user_def)

lemma one_pointer_run:
  "one_pointer_per_user s \<Longrightarrow> one_pointer_per_user (run reqs s)"
proof (induction reqs arbitrary: s)
  case Nil
  then show ?case by simp
next
  case (Cons a reqs)
  obtain e req where a: "a = (e, req)" by (cases a)
  from Cons.prems have "one_pointer_per_user (snd (handle e req s))"
    by (rule one_pointer_handle)
  then have "one_pointer_per_user (run reqs (snd (handle e req s)))"
    by (rule Cons.IH)
  with a show ?case by simp
qed

text \<open>
  Claim C2, as amended. When requests are handled one at a time: a punch-in request by a
  user who has a \<^verbatim>\<open>punched_in\<close> document is answered \<open>AlreadyPunchedIn\<close> and leaves
  the store as it was. Every operation of the core, and the two \<^verbatim>\<open>MongoAttendance\<close>
  methods, keep the property that no two documents of \<^verbatim>\<open>punched_in\<close> belong to one
  user; the property holds of the empty store, hence after every sequence of operations run
  one after another from it.
\<close>

theorem at_most_one_pointer_per_user:
  "(get_by_email django_email s = Some user \<and>
    (\<exists>p\<in>set (punched_in s). p_user_id p = u_id user) \<longrightarrow>
      punch_in e (Some django_email) location latitude longitude s = (Inl AlreadyPunchedIn, s)) \<and>
   ((\<exists>p\<in>set (punched_in s). p_user_id p = user_id) \<longrightarrow>
      attendance_punch_in e user_id date tm location latitude longitude s
        = (Inl AlreadyPunchedIn, s)) \<and>
   (one_pointer_per_user s \<longrightarrow>
      one_pointer_per_user (snd (handle e req s)) \<and>
      one_pointer_per_user
        (snd (attendance_punch_in e user_id date tm location latitude longitude s)) \<and>
      one_pointer_per_user
        (snd (attendance_punch_out e user_id date tm location latitude longitude s))) \<and>
   one_pointer_per_user (run reqs empty_store)"
proof (intro conjI impI)
  assume "get_by_email django_email s = Some user \<and>
    (\<exists>p\<in>set (punched_in s). p_user_id p = u_id user)"
  then show "punch_in e (Some django_email) location latitude longitude s
               = (Inl AlreadyPunchedIn, s)"
    by (simp add: punch_in_pointer_first)
next
  assume "\<exists>p\<in>set (punched_in s). p_user_id p = user_id"
  then have "find_one (\<lambda>p. p_user_id p = user_id) (punched_in s) \<noteq> None"
    by (simp add: find_one_None)
  then show "attendance_punch_in e user_id date tm location latitude longitude s
               = (Inl AlreadyPunchedIn, s)"
    by (auto simp: attendance_punch_in_def)
next
  assume "one_pointer_per_user s"
  then show "one_pointer_per_user (snd (handle e req s))"
    by (rule one_pointer_handle)
next
  assume "one_pointer_per_user s"
  then show "one_pointer_per_user
      (snd (attendance_punch_in e user_id date tm location latitude longitude s))"
    by (rule one_pointer_attendance_punch_in)
next
  assume "one_pointer_per_user s"
  then show "one_pointer_per_user
      (snd (attendance_punch_out e user_id date tm location latitude longitude s))"
    by (rule one_pointer_attendance_punch_out)
next
  have "one_pointer_per_user empty_store"
    by (simp add: one_pointer_per_user_def empty_store_def)
  then show "one_pointer_per_user (run reqs empty_store)"
    by (rule one_pointer_run)
qed

theorem at_most_one_pointer_per_user_witness:
  "punch_in (at_second 190) (Some ''a@x.com'') (Some ''Gate'') None None st_in
     = (Inl AlreadyPunchedIn, st_in) \<and>
   attendance_punch_in (at_second 190) 0 0 20000 (Some ''Gate'') None None st_in
     = (Inl AlreadyPunchedIn, st_in) \<and>
   one_pointer_per_user st_in \<and>
   one_pointer_per_user
     (snd (handle (at_second 190) (PunchIn (Some ''a@x.com'') (Some ''Gate'') None None) st_in)) \<and>
   one_pointer_per_user
     (snd (handle (at_second 240) (PunchOut (Some ''a@x.com'') (Some ''Office'') None None) st_in)) \<and>
   one_pointer_per_user
     (snd (attendance_punch_in (at_second 190) 0 0 20000 (Some ''Gate'') None None st_in)) \<and>
   one_pointer_per_user
     (snd (attendance_punch_out (at_second 190) 0 0 20000 (Some ''Gate'') None None st_in))"
proof -
  have u: "get_by_email ''a@x.com'' st_in = Some alice"
    and p: "\<exists>p\<in>set (punched_in st_in). p_user_id p = u_id alice"
    and p0: "\<exists>p\<in>set (punched_in st_in). p_user_id p = 0"
    and inv: "one_pointer_per_user st_in"
    unfolding st_in_eq
    by (simp_all add: model_defs sample_defs one_pointer_per_user_def)
  from at_most_one_pointer_per_user
         [of "''a@x.com''" st_in alice "at_second 190" "Some ''Gate''" None None 0 0 20000
             "PunchIn (Some ''a@x.com'') (Some ''Gate'') None None" "[]"]
       at_most_one_pointer_per_user
         [of "''a@x.com''" st_in alice "at_second 240" "Some ''Office''" None None 0 0 20000
             "PunchOut (Some ''a@x.com'') (Some ''Office'') None None" "[]"]
       u p p0 inv
  show ?thesis by simp
qed

text \<open>\<open>punch_in\<close> is its checks followed by its inserts.\<close>

lemma punch_in_is_checks_then_inserts:
  "punch_in e django_user location latitude longitude s =
     (case punch_in_checks e django_user location latitude longitude s of
        Inl err \<Rightarrow> (Inl err, s)
      | Inr punch_in_data \<Rightarrow> punch_in_inserts punch_in_data s)"
  by (simp add: punch_in_def punch_in_checks_def punch_in_inserts_def Let_def
           split: option.splits)

text \<open>
  Claim C2, as stated, fails when two handlers take turns. Two punch-in requests of the
  same logged-in user both run their checks on the store \<open>st_login\<close>, which holds no
  pointer; then the first runs its inserts and the second runs its inserts. Both are
  answered with success and the \<^verbatim>\<open>punched_in\<close> collection holds two pointers of user 0.
\<close>

theorem interleaved_punch_ins_counterexample:
  "punched_in st_login = [] \<and>
   punch_in_checks (at_second 180) (Some ''a@x.com'') (Some ''Office'') None None st_login
     = Inr (pointer_first\<lparr>p_id := 0\<rparr>) \<and>
   punch_in_checks (at_second 181) (Some ''a@x.com'') (Some ''Office'') None None st_login
     = Inr (pointer_first\<lparr>p_id := 0, punched_in_time := 19981, p_created_at := 181000000\<rparr>) \<and>
   fst (punch_in_inserts (pointer_first\<lparr>p_id := 0\<rparr>) st_login)
     = Inr (PunchInSuccessful pointer_first) \<and>
   fst (punch_in_inserts
          (pointer_first\<lparr>p_id := 0, punched_in_time := 19981, p_created_at := 181000000\<rparr>)
          (snd (punch_in_inserts (pointer_first\<lparr>p_id := 0\<rparr>) st_login)))
     = Inr (PunchInSuccessful
              (pointer_first\<lparr>p_id := 4, punched_in_time := 19981, p_created_at := 181000000\<rparr>)) \<and>
   map p_user_id (punched_in
     (snd (punch_in_inserts
             (pointer_first\<lparr>p_id := 0, punched_in_time := 19981, p_created_at := 181000000\<rparr>)
             (snd (punch_in_inserts (pointer_first\<lparr>p_id := 0\<rparr>) st_login)))))
     = [0, 0] \<and>
   \<not> one_pointer_per_user
     (snd (punch_in_inserts
             (pointer_first\<lparr>p_id := 0, punched_in_time := 19981, p_created_at := 181000000\<rparr>)
             (snd (punch_in_inserts (pointer_first\<lparr>p_id := 0\<rparr>) st_login))))"
  unfolding st_login_eq
  by (simp add: model_defs sample_defs punch_in_checks_def punch_in_inserts_def
        one_pointer_per_user_def Let_def)

subsection \<open>Login and the sessions before it\<close>

lemma update_one_distinct_key:
  "distinct (map f xs) \<Longrightarrow>
     update_one (\<lambda>x. f x = k) g xs = map (\<lambda>x. if f x = k then g x else x) xs"
proof (induction xs)
  case Nil
  then show ?case by simp
next
  case (Cons a xs)
  show ?case
  proof (cases "f a = k")
    case True
    with Cons.prems have "\<forall>x\<in>set xs. f x \<noteq> k" by (auto simp: image_iff)
    then have "map (\<lambda>x. if f x = k then g x else x) xs = xs" by (simp add: map_idI)
    with True show ?thesis by simp
  next
    case False
    with Cons show ?thesis by simp
  qed
qed

lemma login_sessions_logout_previous_sessions:
  "login_sessions (logout_previous_sessions e user_id device_type active_sessions s) =
     foldl (\<lambda>ls a. update_one (\<lambda>l. l_id l = l_id a) (\<lambda>l. l\<lparr>l_is_active := False\<rparr>) ls)
       (login_sessions s) active_sessions"
  by (induction active_sessions arbitrary: s) (simp_all add: logout_create_session_def Let_def)

lemma deactivate_all_by_id:
  "distinct (map l_id ls) \<Longrightarrow>
   foldl (\<lambda>ls a. update_one (\<lambda>l. l_id l = l_id a) (\<lambda>l. l\<lparr>l_is_active := False\<rparr>) ls) ls acts =
     map (\<lambda>l. if l_id l \<in> l_id ` set acts then l\<lparr>l_is_active := False\<rparr> else l) ls"
proof (induction acts arbitrary: ls)
  case Nil
  then show ?case by (simp add: map_idI)
next
  case (Cons a acts)
  let ?ls1 = "map (\<lambda>l. if l_id l = l_id a then l\<lparr>l_is_active := False\<rparr> else l) ls"
  have ids: "map l_id ?ls1 = map l_id ls" by (induction ls) auto
  have step: "update_one (\<lambda>l. l_id l = l_id a) (\<lambda>l. l\<lparr>l_is_active := False\<rparr>) ls = ?ls1"
    using Cons.prems by (rule update_one_distinct_key)
  have "distinct (map l_id ?ls1)" by (simp only: ids Cons.prems)
  from Cons.IH [OF this] step show ?case by (auto simp: comp_def)
qed

lemma deactivate_matching:
  assumes "distinct (map l_id ls)"
  shows "map (\<lambda>l. if l_id l \<in> l_id ` set (filter P ls) then l\<lparr>l_is_active := False\<rparr> else l) ls =
         map (\<lambda>l. if P l then l\<lparr>l_is_active := False\<rparr> else l) ls"
proof (rule map_cong [OF refl])
  fix l assume l: "l \<in> set ls"
  from assms have inj: "inj_on l_id (set ls)" by (simp add: distinct_map)
  have "l_id l \<in> l_id ` set (filter P ls) \<longleftrightarrow> P l"
  proof
    assume "l_id l \<in> l_id ` set (filter P ls)"
    then obtain l' where "l' \<in> set ls" "P l'" "l_id l' = l_id l" by auto
    with inj l have "l' = l" by (auto dest: inj_onD)
    with \<open>P l'\<close> show "P l" by simp
  next
    assume "P l"
    with l show "l_id l \<in> l_id ` set (filter P ls)" by auto
  qed
  then show "(if l_id l \<in> l_id ` set (filter P ls) then l\<lparr>l_is_active := False\<rparr> else l) =
             (if P l then l\<lparr>l_is_active := False\<rparr> else l)"
    by simp
qed

lemma logout_sessions_logout_previous_sessions:
  "\<exists>added. logout_sessions (logout_previous_sessions e user_id device_type active_sessions s)
              = logout_sessions s @ added \<and>
           length added = length active_sessions \<and>
           (\<forall>lo\<in>set added. lo_user_id lo = user_id \<and> lo_device_type lo = device_type \<and>
                             lo_logout_time lo = get_ist_time e)"
proof (induction active_sessions arbitrary: s)
  case Nil
  then show ?case by simp
next
  case (Cons a acts)
  let ?s1 = "snd (logout_create_session e user_id device_type
          (s\<lparr>login_sessions := update_one (\<lambda>l. l_id l = l_id a)
                (\<lambda>l. l\<lparr>l_is_active := False\<rparr>) (login_sessions s)\<rparr>))"
  obtain x where x: "logout_sessions ?s1 = logout_sessions s @ [x]"
    "lo_user_id x = user_id" "lo_device_type x = device_type" "lo_logout_time x = get_ist_time e"
    by (simp add: logout_create_session_def Let_def)
  from Cons.IH [of ?s1] obtain added where
    added: "logout_sessions (logout_previous_sessions e user_id device_type acts ?s1)
              = logout_sessions ?s1 @ added"
      "length added = length acts"
      "\<forall>lo\<in>set added. lo_user_id lo = user_id \<and> lo_device_type lo = device_type \<and>
                             lo_logout_time lo = get_ist_time e"
    by blast
  have "logout_sessions (logout_previous_sessions e user_id device_type (a # acts) s)
          = logout_sessions s @ (x # added)"
    using x(1) added(1) by simp
  moreover have "length (x # added) = length (a # acts)" using added(2) by simp
  moreover have "\<forall>lo\<in>set (x # added). lo_user_id lo = user_id \<and> lo_device_type lo = device_type \<and>
                             lo_logout_time lo = get_ist_time e"
    using x(2-4) added(3) by simp
  ultimately show ?case by blast
qed

lemma login_ids_frame:
  assumes "login_session_ids_fresh s"
    and "map l_id (login_sessions s') = map l_id (login_sessions s)"
    and "next_id s \<le> next_id s'"
  shows "login_session_ids_fresh s'"
proof -
  from assms(2) have "l_id ` set (login_sessions s') = l_id ` set (login_sessions s)"
    by (metis set_map)
  then have "\<forall>l\<in>set (login_sessions s'). l_id l \<in> l_id ` set (login_sessions s)"
    by blast
  with assms(1,3) have "\<forall>l\<in>set (login_sessions s'). l_id l < next_id s'"
    by (fastforce simp: login_session_ids_fresh_def)
  with assms(1,2) show ?thesis
    by (simp add: login_session_ids_fresh_def)
qed

lemma map_id_update_one:
  "map l_id (update_one P (\<lambda>l. l\<lparr>l_is_active := False\<rparr>) ls) = map l_id ls"
  by (induction ls) auto

lemma map_id_update_many:
  "map l_id (update_many P (\<lambda>l. l\<lparr>l_is_active := False\<rparr>) ls) = map l_id ls"
  by (induction ls) (auto simp: update_many_def)

lemma login_ids_create_user:
  "login_session_ids_fresh s \<Longrightarrow>
   login_session_ids_fresh (snd (create_user e username email password role s))"
  by (erule login_ids_frame)
     (simp_all add: create_user_def insert_user_def cleanup_unverified_users_def
        cleanup_otps_for_email_def Let_def split: option.splits)

lemma login_ids_create_otp:
  "login_session_ids_fresh s \<Longrightarrow> login_session_ids_fresh (snd (create_otp e email purpose s))"
  by (erule login_ids_frame) (simp_all add: create_otp_def cleanup_expired_otps_def Let_def)

lemma login_ids_signup:
  assumes ok: "login_session_ids_fresh s"
  shows "login_session_ids_fresh (snd (signup e user_name email password s))"
proof (cases "create_user e user_name email password ''employee'' s")
  case (Pair r s1)
  from login_ids_create_user [OF ok, of e user_name email password "''employee''"] Pair
  have "login_session_ids_fresh s1" by simp
  with Pair show ?thesis
    by (cases r) (simp_all add: signup_def split_beta login_ids_create_otp)
qed

lemma login_ids_verify_otp:
  "login_session_ids_fresh s \<Longrightarrow> login_session_ids_fresh (snd (verify_otp e email otp_code s))"
  by (erule login_ids_frame)
     (simp_all add: verify_otp_def otp_delete_def verify_email_def save_def Let_def
        split: option.splits)

lemma login_ids_forgot_password:
  "login_session_ids_fresh s \<Longrightarrow> login_session_ids_fresh (snd (forgot_password e email s))"
  by (auto simp: forgot_password_def split_beta login_ids_create_otp split: option.splits)

lemma login_ids_reset_password:
  "login_session_ids_fresh s \<Longrightarrow>
   login_session_ids_fresh (snd (reset_password e email otp_code new_password s))"
  by (erule login_ids_frame)
     (simp_all add: reset_password_def otp_delete_def set_password_def save_def Let_def
        split: option.splits)

lemma login_ids_logout_previous_sessions:
  "login_session_ids_fresh s \<Longrightarrow>
   login_session_ids_fresh (logout_previous_sessions e user_id device_type active_sessions s)"
proof (induction active_sessions arbitrary: s)
  case Nil
  then show ?case by simp
next
  case (Cons a acts)
  let ?s1 = "snd (logout_create_session e user_id device_type
          (s\<lparr>login_sessions := update_one (\<lambda>l. l_id l = l_id a)
                (\<lambda>l. l\<lparr>l_is_active := False\<rparr>) (login_sessions s)\<rparr>))"
  have "login_session_ids_fresh ?s1"
    by (rule login_ids_frame [OF Cons.prems])
       (simp_all add: logout_create_session_def Let_def map_id_update_one)
  then show ?case using Cons.IH by simp
qed

lemma login_ids_login:
  assumes ok: "login_session_ids_fresh s"
  shows "login_session_ids_fresh (snd (login e email password device_type s))"
proof -
  have "\<And>user_id acts. login_session_ids_fresh
          (snd (login_create_session e user_id device_type
                  (logout_previous_sessions e user_id device_type acts s)))"
    using login_ids_logout_previous_sessions [OF ok, of e _ device_type]
    by (fastforce simp: login_session_ids_fresh_def login_create_session_def Let_def)
  with ok show ?thesis
    by (auto simp: login_def Let_def split_beta split: option.splits)
qed

lemma login_ids_punch_in:
  "login_session_ids_fresh s \<Longrightarrow>
   login_session_ids_fresh (snd (punch_in e django_user location latitude longitude s))"
  by (erule login_ids_frame) (auto simp: punch_in_def Let_def split: option.splits)

lemma login_ids_punch_out:
  "login_session_ids_fresh s \<Longrightarrow>
   login_session_ids_fresh (snd (punch_out e django_user location latitude longitude s))"
  by (erule login_ids_frame)
     (auto simp: punch_out_def attendance_punch_out_def Let_def split: option.splits)

lemma login_ids_logout:
  "login_session_ids_fresh s \<Longrightarrow>
   login_session_ids_fresh (snd (logout e django_user device_type s))"
  by (erule login_ids_frame)
     (simp_all add: logout_def logout_create_session_def map_id_update_many Let_def
        split: option.splits)

lemma login_ids_periodic_cleanup:
  "login_session_ids_fresh s \<Longrightarrow> login_session_ids_fresh (perform_periodic_cleanup e s)"
  by (erule login_ids_frame)
     (simp_all add: perform_periodic_cleanup_def cleanup_expired_otps_def
        cleanup_unverified_users_def Let_def)

lemma login_ids_handle:
  "login_session_ids_fresh s \<Longrightarrow> login_session_ids_fresh (snd (handle e req s))"
  by (cases req)
     (simp_all add: login_ids_signup login_ids_verify_otp login_ids_login
        login_ids_forgot_password login_ids_reset_password login_ids_punch_in
        login_ids_punch_out login_ids_logout login_ids_periodic_cleanup)

text \<open>Every store reached from the empty store has distinct login session \<^verbatim>\<open>_id\<close>s.\<close>

lemma login_session_ids_distinct_reachable:
  "distinct (map l_id (login_sessions (run reqs empty_store)))"
proof -
  have "login_session_ids_fresh s \<Longrightarrow> login_session_ids_fresh (run reqs s)" for s
  proof (induction reqs arbitrary: s)
    case Nil
    then show ?case by simp
  next
    case (Cons a reqs)
    obtain e req where a: "a = (e, req)" by (cases a)
    from Cons.prems have "login_session_ids_fresh (snd (handle e req s))"
      by (rule login_ids_handle)
    then have "login_session_ids_fresh (run reqs (snd (handle e req s)))"
      by (rule Cons.IH)
    with a show ?case by simp
  qed
  moreover have "login_session_ids_fresh empty_store"
    by (simp add: login_session_ids_fresh_def empty_store_def)
  ultimately show ?thesis
    by (simp add: login_session_ids_fresh_def)
qed

text \<open>
  Claim C7, as amended. A successful login sets \<open>is_active\<close> to false on every session of
  the user that was active, appends one logout session per session it deactivated, each for
  this user and carrying the device type of the new login request, and appends the new
  session, which is then the user's active session. The \<^verbatim>\<open>_id\<close>s of the login
  sessions are distinct, as they are in every store reached from the empty one.
\<close>

theorem login_deactivates_previous_sessions:
  assumes "authenticate email password s = Some user"
    and "u_is_verified user"
    and "email \<noteq> []" and "password \<noteq> []"
    and "distinct (map l_id (login_sessions s))"
    and "login e email password device_type s = (r, s')"
  shows "\<exists>new_session added.
     r = Inr (LoginSuccessful (u_id user)) \<and>
     login_sessions s' =
       map (\<lambda>l. if l_user_id l = u_id user \<and> l_is_active l then l\<lparr>l_is_active := False\<rparr> else l)
         (login_sessions s) @ [new_session] \<and>
     l_user_id new_session = u_id user \<and> l_device_type new_session = device_type \<and>
     l_is_active new_session \<and> l_login_time new_session = get_ist_time e \<and>
     get_active_session (u_id user) s' = Some new_session \<and>
     logout_sessions s' = logout_sessions s @ added \<and>
     length added =
       length (filter (\<lambda>l. l_user_id l = u_id user \<and> l_is_active l) (login_sessions s)) \<and>
     (\<forall>lo\<in>set added. lo_user_id lo = u_id user \<and> lo_device_type lo = device_type \<and>
                       lo_logout_time lo = get_ist_time e)"
proof -
  let ?P = "\<lambda>l. l_user_id l = u_id user \<and> l_is_active l = True"
  let ?acts = "filter ?P (login_sessions s)"
  let ?s1 = "logout_previous_sessions e (u_id user) device_type ?acts s"
  let ?new = "fst (login_create_session e (u_id user) device_type ?s1)"
  let ?deact = "map (\<lambda>l. if l_user_id l = u_id user \<and> l_is_active l
                          then l\<lparr>l_is_active := False\<rparr> else l) (login_sessions s)"
  from assms have res: "r = Inr (LoginSuccessful (u_id user))"
    "s' = snd (login_create_session e (u_id user) device_type ?s1)"
    by (auto simp: login_def Let_def split_beta)
  have ls1: "login_sessions ?s1 = ?deact"
    using deactivate_all_by_id [OF assms(5), of ?acts] deactivate_matching [OF assms(5), of ?P]
    by (simp add: login_sessions_logout_previous_sessions)
  have ls': "login_sessions s' = ?deact @ [?new]"
    using res(2) ls1 by (simp add: login_create_session_def Let_def)
  have new: "l_user_id ?new = u_id user" "l_device_type ?new = device_type" "l_is_active ?new"
    "l_login_time ?new = get_ist_time e"
    by (simp_all add: login_create_session_def Let_def)
  have "filter ?P ?deact = []"
    by (auto simp: filter_empty_conv)
  then have "filter ?P (login_sessions s') = [?new]"
    using ls' new by simp
  then have active: "get_active_session (u_id user) s' = Some ?new"
    by (simp add: get_active_session_def find_one_sort_desc_def)
  from logout_sessions_logout_previous_sessions [of e "u_id user" device_type ?acts s]
  obtain added where added: "logout_sessions ?s1 = logout_sessions s @ added"
    "length added = length ?acts"
    "\<forall>lo\<in>set added. lo_user_id lo = u_id user \<and> lo_device_type lo = device_type \<and>
                       lo_logout_time lo = get_ist_time e"
    by blast
  have "logout_sessions s' = logout_sessions s @ added"
    using res(2) added(1) by (simp add: login_create_session_def Let_def)
  with res(1) ls' new active added(2,3) show ?thesis
    by (intro exI [of _ ?new] exI [of _ added]) simp
qed

theorem login_deactivates_previous_sessions_witness:
  "map (\<lambda>l. (l_device_type l, l_is_active l)) (login_sessions st_relogin)
     = [(''web'', False), (''mobile'', True)] \<and>
   map_option l_device_type (get_active_session 0 st_relogin) = Some ''mobile'' \<and>
   length (logout_sessions st_relogin) = 1"
proof -
  have a: "authenticate ''a@x.com'' ''pw1'' st_login = Some alice"
    and v: "u_is_verified alice"
    and d: "distinct (map l_id (login_sessions st_login))"
    unfolding st_login_eq by (simp_all add: model_defs sample_defs)
  have l: "login (at_second 200) ''a@x.com'' ''pw1'' ''mobile'' st_login
             = (fst (login (at_second 200) ''a@x.com'' ''pw1'' ''mobile'' st_login), st_relogin)"
    by (simp add: st_relogin_def)
  from login_deactivates_previous_sessions [OF a v _ _ d l]
  obtain new_session added where
    *: "login_sessions st_relogin =
       map (\<lambda>l. if l_user_id l = u_id alice \<and> l_is_active l then l\<lparr>l_is_active := False\<rparr> else l)
         (login_sessions st_login) @ [new_session]"
      "l_device_type new_session = ''mobile''" "l_is_active new_session"
      "get_active_session (u_id alice) st_relogin = Some new_session"
      "logout_sessions st_relogin = logout_sessions st_login @ added"
      "length added =
        length (filter (\<lambda>l. l_user_id l = u_id alice \<and> l_is_active l) (login_sessions st_login))"
    by auto
  from *(1,2,3) have "map (\<lambda>l. (l_device_type l, l_is_active l)) (login_sessions st_relogin)
     = [(''web'', False), (''mobile'', True)]"
    unfolding st_login_eq by (simp add: model_defs sample_defs)
  moreover from *(4,2) have "map_option l_device_type (get_active_session 0 st_relogin) = Some ''mobile''"
    by (simp add: alice_def alice_unverified_def)
  moreover from *(5,6) have "length (logout_sessions st_relogin) = 1"
    unfolding st_login_eq by (simp add: model_defs sample_defs)
  ultimately show ?thesis by simp
qed

text \<open>
  Claim C7, as stated, fails. After a login from \<^verbatim>\<open>web\<close> and a second login from
  \<^verbatim>\<open>mobile\<close> the one logout session on record carries the device type \<^verbatim>\<open>mobile\<close>;
  none carries \<^verbatim>\<open>web\<close>.
\<close>

theorem relogin_logout_session_device_counterexample:
  "map (\<lambda>l. (l_user_id l, l_device_type l, l_is_active l)) (login_sessions st_login)
     = [(0, ''web'', True)] \<and>
   logout_sessions st_login = [] \<and>
   fst (login (at_second 200) ''a@x.com'' ''pw1'' ''mobile'' st_login) = Inr (LoginSuccessful 0) \<and>
   map (\<lambda>l. (lo_user_id l, lo_device_type l))
       (logout_sessions (snd (login (at_second 200) ''a@x.com'' ''pw1'' ''mobile'' st_login)))
     = [(0, ''mobile'')] \<and>
   ''web'' \<notin> lo_device_type `
       set (logout_sessions (snd (login (at_second 200) ''a@x.com'' ''pw1'' ''mobile'' st_login)))"
  unfolding st_login_eq by (simp add: model_defs sample_defs Let_def)

subsection \<open>Login sessions belong to verified users\<close>

lemma sessions_of_verified_users_frame:
  assumes "sessions_of_verified_users s"
    and "users s' = users s"
    and "map l_user_id (login_sessions s') = map l_user_id (login_sessions s)"
    and "next_id s \<le> next_id s'"
  shows "sessions_of_verified_users s'"
proof -
  have "\<forall>l\<in>set (login_sessions s'). \<exists>u\<in>set (users s). u_id u = l_user_id l \<and> u_is_verified u"
  proof
    fix l assume "l \<in> set (login_sessions s')"
    then have "l_user_id l \<in> set (map l_user_id (login_sessions s'))" by simp
    with assms(3) have "l_user_id l \<in> set (map l_user_id (login_sessions s))" by simp
    then obtain l0 where "l0 \<in> set (login_sessions s)" "l_user_id l0 = l_user_id l"
      by auto
    with assms(1) show "\<exists>u\<in>set (users s). u_id u = l_user_id l \<and> u_is_verified u"
      unfolding sessions_of_verified_users_def by metis
  qed
  with assms show ?thesis
    by (fastforce simp: sessions_of_verified_users_def)
qed

lemma sessions_ok_delete_unverified:
  assumes "sessions_of_verified_users s"
    and "set us \<subseteq> set (users s)" and "distinct (map u_id us)"
    and "\<forall>u\<in>set (users s). u_is_verified u \<longrightarrow> u \<in> set us"
  shows "sessions_of_verified_users (s\<lparr>users := us\<rparr>)"
  using assms by (fastforce simp: sessions_of_verified_users_def)

lemma map_if_mem_hit: "x \<in> set xs \<Longrightarrow> c x \<Longrightarrow> d \<in> set (map (\<lambda>u. if c u then d else u) xs)"
  by (induction xs) auto

lemma map_if_mem_miss: "x \<in> set xs \<Longrightarrow> \<not> c x \<Longrightarrow> x \<in> set (map (\<lambda>u. if c u then d else u) xs)"
  by (induction xs) auto

lemma delete_one_keeps: "x \<in> set xs \<Longrightarrow> \<not> P x \<Longrightarrow> x \<in> set (delete_one P xs)"
  by (induction xs) auto

lemma sessions_ok_cleanup_unverified_users:
  "sessions_of_verified_users s \<Longrightarrow> sessions_of_verified_users (cleanup_unverified_users e email s)"
proof -
  assume ok: "sessions_of_verified_users s"
  let ?s1 = "if truthy email then cleanup_otps_for_email (the email) s else s"
  have s1: "sessions_of_verified_users ?s1"
    using ok by (auto simp: cleanup_otps_for_email_def intro: sessions_of_verified_users_frame)
  have "users ?s1 = users s" by (simp add: cleanup_otps_for_email_def)
  then have d: "distinct (map u_id (users ?s1))"
    using ok by (simp add: sessions_of_verified_users_def)
  have "sessions_of_verified_users (?s1\<lparr>users := delete_many
            (\<lambda>u. u_is_verified u = False \<and> u_created_at u < get_ist_time e - timedelta 0 10 0
                  \<and> (truthy email \<longrightarrow> Some (u_email u) = email))
            (users ?s1)\<rparr>)"
    using d by (intro sessions_ok_delete_unverified [OF s1])
               (auto simp: delete_many_def distinct_map_filter)
  then show ?thesis
    by (simp add: cleanup_unverified_users_def Let_def)
qed

lemma sessions_ok_cleanup_expired_otps:
  "sessions_of_verified_users s \<Longrightarrow> sessions_of_verified_users (cleanup_expired_otps e email s)"
  by (erule sessions_of_verified_users_frame) (simp_all add: cleanup_expired_otps_def Let_def)

lemma sessions_ok_insert_user:
  "sessions_of_verified_users s \<Longrightarrow> sessions_of_verified_users (snd (insert_user user_data s))"
  by (fastforce simp: sessions_of_verified_users_def insert_user_def Let_def)

lemma sessions_ok_create_user:
  assumes ok: "sessions_of_verified_users s"
  shows "sessions_of_verified_users (snd (create_user e username email password role s))"
proof -
  let ?s1 = "cleanup_unverified_users e (Some email) s"
  have s1: "sessions_of_verified_users ?s1"
    using ok by (rule sessions_ok_cleanup_unverified_users)
  have "sessions_of_verified_users
          (?s1\<lparr>users := delete_one (\<lambda>u. u_email u = email \<and> u_is_verified u = False) (users ?s1)\<rparr>)"
    using s1 set_delete_one [of _ "users ?s1"]
    by (intro sessions_ok_delete_unverified [OF s1])
       (auto simp: sessions_of_verified_users_def intro: distinct_map_delete_one delete_one_keeps)
  with s1 show ?thesis
    by (auto simp: create_user_def Let_def sessions_ok_insert_user split: option.splits)
qed

lemma sessions_ok_create_otp:
  "sessions_of_verified_users s \<Longrightarrow> sessions_of_verified_users (snd (create_otp e email purpose s))"
  by (erule sessions_of_verified_users_frame)
     (simp_all add: create_otp_def cleanup_expired_otps_def Let_def)

lemma sessions_ok_signup:
  assumes ok: "sessions_of_verified_users s"
  shows "sessions_of_verified_users (snd (signup e user_name email password s))"
proof (cases "create_user e user_name email password ''employee'' s")
  case (Pair r s1)
  from sessions_ok_create_user [OF ok, of e user_name email password "''employee''"] Pair
  have "sessions_of_verified_users s1" by simp
  with Pair show ?thesis
    by (cases r) (simp_all add: signup_def split_beta sessions_ok_create_otp)
qed

lemma sessions_ok_otp_delete:
  "sessions_of_verified_users s \<Longrightarrow> sessions_of_verified_users (otp_delete otp s)"
  by (erule sessions_of_verified_users_frame) (simp_all add: otp_delete_def)

lemma sessions_ok_save:
  assumes ok: "sessions_of_verified_users s"
    and v: "\<forall>u\<in>set (users s). u_id u = u_id data \<and> u_is_verified u \<longrightarrow> u_is_verified data"
  shows "sessions_of_verified_users (save e data s)"
proof -
  let ?d = "data\<lparr>u_updated_at := get_ist_time e\<rparr>"
  let ?us = "map (\<lambda>u. if u_id u = u_id data then ?d else u) (users s)"
  from ok have d: "distinct (map u_id (users s))" by (simp add: sessions_of_verified_users_def)
  have us: "users (save e data s) = ?us"
    using update_one_distinct_key [OF d, of "u_id data" "\<lambda>_. ?d"] by (simp add: save_def Let_def)
  have ids: "map u_id ?us = map u_id (users s)" by (induction "users s") auto
  have rest: "login_sessions (save e data s) = login_sessions s" "next_id (save e data s) = next_id s"
    by (simp_all add: save_def Let_def)
  have "\<forall>l\<in>set (login_sessions s). \<exists>u\<in>set ?us. u_id u = l_user_id l \<and> u_is_verified u"
  proof
    fix l assume "l \<in> set (login_sessions s)"
    with ok obtain u where u: "u \<in> set (users s)" "u_id u = l_user_id l" "u_is_verified u"
      by (auto simp: sessions_of_verified_users_def)
    show "\<exists>u\<in>set ?us. u_id u = l_user_id l \<and> u_is_verified u"
    proof (cases "u_id u = u_id data")
      case True
      with u v have "u_is_verified ?d" by auto
      moreover from u(1) True have "?d \<in> set ?us" by (rule map_if_mem_hit)
      moreover from True u(2) have "u_id ?d = l_user_id l" by simp
      ultimately show ?thesis by blast
    next
      case False
      with u(1) have "u \<in> set ?us" by (rule map_if_mem_miss)
      with u(2,3) show ?thesis by blast
    qed
  qed
  moreover have "\<forall>u\<in>set ?us. u_id u < next_id s"
  proof -
    have "u_id ` set ?us = u_id ` set (users s)"
      using ids by (metis set_map)
    with ok show ?thesis by (auto simp: sessions_of_verified_users_def)
  qed
  moreover have "distinct (map u_id ?us)" by (simp only: ids d)
  ultimately show ?thesis
    by (simp add: sessions_of_verified_users_def us rest)
qed

lemma sessions_ok_save_same_user:
  assumes ok: "sessions_of_verified_users s"
    and mem: "user \<in> set (users s)"
    and same: "u_id data = u_id user" "u_is_verified data = u_is_verified user"
  shows "sessions_of_verified_users (save e data s)"
proof (rule sessions_ok_save [OF ok], intro ballI impI)
  fix u assume "u \<in> set (users s)" and *: "u_id u = u_id data \<and> u_is_verified u"
  from ok have "inj_on u_id (set (users s))"
    by (simp add: sessions_of_verified_users_def distinct_map)
  with \<open>u \<in> set (users s)\<close> mem * same(1) have "u = user" by (auto dest: inj_onD)
  with * same(2) show "u_is_verified data" by simp
qed

lemma get_by_email_mem: "get_by_email email s = Some user \<Longrightarrow> user \<in> set (users s) \<and> u_email user = email"
  by (auto simp: get_by_email_def dest: find_one_Some)

lemma sessions_ok_verify_otp:
  assumes ok: "sessions_of_verified_users s"
  shows "sessions_of_verified_users (snd (verify_otp e email otp_code s))"
proof -
  have "\<And>otp user. sessions_of_verified_users (verify_email e user (otp_delete otp s))"
    unfolding verify_email_def
    by (rule sessions_ok_save [OF sessions_ok_otp_delete [OF ok]]) simp
  with ok show ?thesis
    by (auto simp: verify_otp_def Let_def sessions_ok_otp_delete split: option.splits)
qed

lemma sessions_ok_reset_password:
  assumes ok: "sessions_of_verified_users s"
  shows "sessions_of_verified_users (snd (reset_password e email otp_code new_password s))"
proof -
  have "\<And>otp user. get_by_email email (otp_delete otp s) = Some user \<Longrightarrow>
          sessions_of_verified_users (set_password e user new_password (otp_delete otp s))"
    unfolding set_password_def
    by (rule sessions_ok_save_same_user [OF sessions_ok_otp_delete [OF ok]])
       (auto dest: get_by_email_mem)
  with ok show ?thesis
    by (auto simp: reset_password_def Let_def sessions_ok_otp_delete split: option.splits)
qed

lemma sessions_ok_forgot_password:
  "sessions_of_verified_users s \<Longrightarrow> sessions_of_verified_users (snd (forgot_password e email s))"
  by (auto simp: forgot_password_def split_beta sessions_ok_create_otp split: option.splits)

lemma map_user_id_update_one:
  "map l_user_id (update_one P (\<lambda>l. l\<lparr>l_is_active := False\<rparr>) ls) = map l_user_id ls"
  by (induction ls) auto

lemma sessions_ok_logout_previous_sessions:
  "sessions_of_verified_users s \<Longrightarrow>
   sessions_of_verified_users (logout_previous_sessions e user_id device_type active_sessions s)"
proof (induction active_sessions arbitrary: s)
  case Nil
  then show ?case by simp
next
  case (Cons a acts)
  let ?s1 = "snd (logout_create_session e user_id device_type
          (s\<lparr>login_sessions := update_one (\<lambda>l. l_id l = l_id a)
                (\<lambda>l. l\<lparr>l_is_active := False\<rparr>) (login_sessions s)\<rparr>))"
  have "map l_user_id (login_sessions ?s1) = map l_user_id (login_sessions s)"
    by (simp add: logout_create_session_def Let_def map_user_id_update_one)
  then have "sessions_of_verified_users ?s1"
    by (intro sessions_of_verified_users_frame [OF Cons.prems])
       (simp_all add: logout_create_session_def Let_def)
  then show ?case using Cons.IH by simp
qed

lemma authenticate_mem:
  "authenticate email password s = Some user \<Longrightarrow> user \<in> set (users s)"
  by (auto simp: authenticate_def dest: get_by_email_mem split: option.splits if_splits)

lemma sessions_ok_login_create_session:
  "sessions_of_verified_users s \<Longrightarrow> user \<in> set (users s) \<Longrightarrow> u_is_verified user \<Longrightarrow>
   sessions_of_verified_users (snd (login_create_session e (u_id user) device_type s))"
  by (fastforce simp: sessions_of_verified_users_def login_create_session_def Let_def)

lemma users_logout_previous_sessions:
  "users (logout_previous_sessions e user_id device_type active_sessions s) = users s"
  by (induction active_sessions arbitrary: s) (simp_all add: logout_create_session_def Let_def)

lemma sessions_ok_login:
  assumes ok: "sessions_of_verified_users s"
  shows "sessions_of_verified_users (snd (login e email password device_type s))"
proof (cases "authenticate email password s")
  case None
  with ok show ?thesis by (simp add: login_def)
next
  case (Some user)
  show ?thesis
  proof (cases "u_is_verified user \<and> email \<noteq> [] \<and> password \<noteq> []")
    case False
    with Some ok show ?thesis by (auto simp: login_def)
  next
    case True
    let ?s1 = "logout_previous_sessions e (u_id user) device_type
                 (filter (\<lambda>l. l_user_id l = u_id user \<and> l_is_active l = True) (login_sessions s)) s"
    have "sessions_of_verified_users ?s1"
      using ok by (rule sessions_ok_logout_previous_sessions)
    moreover have "user \<in> set (users ?s1)"
      using Some by (simp add: users_logout_previous_sessions authenticate_mem)
    ultimately have "sessions_of_verified_users
        (snd (login_create_session e (u_id user) device_type ?s1))"
      using True by (intro sessions_ok_login_create_session) simp_all
    with Some True show ?thesis by (simp add: login_def Let_def split_beta)
  qed
qed

lemma sessions_ok_punch_in:
  "sessions_of_verified_users s \<Longrightarrow>
   sessions_of_verified_users (snd (punch_in e django_user location latitude longitude s))"
  by (erule sessions_of_verified_users_frame)
     (auto simp: punch_in_def Let_def split: option.splits)

lemma sessions_ok_punch_out:
  "sessions_of_verified_users s \<Longrightarrow>
   sessions_of_verified_users (snd (punch_out e django_user location latitude longitude s))"
  by (erule sessions_of_verified_users_frame)
     (auto simp: punch_out_def attendance_punch_out_def Let_def split: option.splits)

lemma map_user_id_update_many:
  "map l_user_id (update_many P (\<lambda>l. l\<lparr>l_is_active := False\<rparr>) ls) = map l_user_id ls"
  by (induction ls) (auto simp: update_many_def)

lemma sessions_ok_logout:
  "sessions_of_verified_users s \<Longrightarrow>
   sessions_of_verified_users (snd (logout e django_user device_type s))"
  by (erule sessions_of_verified_users_frame)
     (simp_all add: logout_def logout_create_session_def map_user_id_update_many Let_def
           split: option.splits)

lemma sessions_ok_handle:
  "sessions_of_verified_users s \<Longrightarrow> sessions_of_verified_users (snd (handle e req s))"
  by (cases req)
     (simp_all add: sessions_ok_signup sessions_ok_verify_otp sessions_ok_login
        sessions_ok_forgot_password sessions_ok_reset_password sessions_ok_punch_in
        sessions_ok_punch_out sessions_ok_logout perform_periodic_cleanup_def
        sessions_ok_cleanup_expired_otps sessions_ok_cleanup_unverified_users)

lemma sessions_ok_run:
  "sessions_of_verified_users s \<Longrightarrow> sessions_of_verified_users (run reqs s)"
proof (induction reqs arbitrary: s)
  case Nil
  then show ?case by simp
next
  case (Cons a reqs)
  obtain e req where a: "a = (e, req)" by (cases a)
  from Cons.prems have "sessions_of_verified_users (snd (handle e req s))"
    by (rule sessions_ok_handle)
  then have "sessions_of_verified_users (run reqs (snd (handle e req s)))"
    by (rule Cons.IH)
  with a show ?case by simp
qed

lemma sessions_ok_reachable: "sessions_of_verified_users (run reqs empty_store)"
  by (rule sessions_ok_run) (simp add: sessions_of_verified_users_def empty_store_def)

lemma unverified_user_never_logged_in:
  assumes ok: "sessions_of_verified_users s"
    and user: "user \<in> set (users s)" "u_is_verified user = False"
  shows "get_latest_login (u_id user) s = None"
proof -
  from ok have inj: "inj_on u_id (set (users s))"
    by (simp add: sessions_of_verified_users_def distinct_map)
  have "\<forall>l\<in>set (login_sessions s). l_user_id l \<noteq> u_id user"
  proof
    fix l assume "l \<in> set (login_sessions s)"
    with ok obtain u where u: "u \<in> set (users s)" "u_id u = l_user_id l" "u_is_verified u"
      by (auto simp: sessions_of_verified_users_def)
    show "l_user_id l \<noteq> u_id user"
    proof
      assume "l_user_id l = u_id user"
      with u inj user(1) have "u = user" by (auto dest: inj_onD)
      with u(3) user(2) show False by simp
    qed
  qed
  then show ?thesis by (simp add: get_latest_login_None)
qed

subsection \<open>Password reset of an unverified user\<close>

lemma greatest_by_snoc:
  "\<forall>y\<in>set xs. key y < key x \<Longrightarrow> greatest_by key (xs @ [x]) = Some x"
proof (induction xs)
  case Nil
  then show ?case by simp
next
  case (Cons a xs)
  then have "greatest_by key (xs @ [x]) = Some x" by simp
  with Cons.prems show ?case by simp
qed

lemma find_one_after_replace:
  assumes "find_one (\<lambda>u. u_email u = email) us = Some user"
    and "distinct (map u_id us)"
    and "u_email d = email"
  shows "find_one (\<lambda>u. u_email u = email) (update_one (\<lambda>u. u_id u = u_id user) (\<lambda>_. d) us) = Some d"
  using assms
proof (induction us)
  case Nil
  then show ?case by (simp add: find_one_def)
next
  case (Cons a us)
  show ?case
  proof (cases "u_email a = email")
    case True
    with Cons.prems(1) have "a = user" by (simp add: find_one_def)
    with Cons.prems(3) show ?thesis by (simp add: find_one_def)
  next
    case False
    with Cons.prems(1) have f: "find_one (\<lambda>u. u_email u = email) us = Some user"
      by (simp add: find_one_def)
    then have "user \<in> set us" by (auto dest: find_one_Some)
    with Cons.prems(2) have "u_id a \<noteq> u_id user" by (auto simp: image_iff)
    moreover from Cons.prems(2) have "distinct (map u_id us)" by simp
    ultimately show ?thesis
      using Cons.IH [OF f _ Cons.prems(3)] False by (simp add: find_one_def)
  qed
qed

lemma forgot_password_existing_user:
  assumes "get_by_email email s = Some user"
  shows "forgot_password e email s =
    (Inr OTPSent,
     s\<lparr>otps := delete_many (\<lambda>d. o_created_at d < get_ist_time e - timedelta 0 10 0) (otps s)
               @ [\<lparr>o_id = next_id s, o_email = email, o_otp = random_digits e,
                   o_purpose = ''forgot_password'', o_is_used = False,
                   o_created_at = get_ist_time e\<rparr>],
       next_id := Suc (next_id s)\<rparr>)"
  using assms
  by (simp add: forgot_password_def create_otp_def cleanup_expired_otps_def generate_otp_def
        Let_def)

text \<open>
  Claim C10. Take a store reached from the empty store by any sequence of operations, an
  existing user whose \<open>is_verified\<close> is false, and a request instant later than the
  \<open>created_at\<close> of every stored OTP. Then \<open>forgot_password\<close> answers \<open>OTPSent\<close>,
  and \<open>reset_password\<close> with the code it issued answers \<open>PasswordReset\<close> and stores
  the digest of the new password in the user's document; \<open>is_verified\<close> stays false.
\<close>

theorem unverified_user_can_reset_password:
  assumes reach: "s = run reqs empty_store"
    and user: "get_by_email email s = Some user"
    and unverified: "u_is_verified user = False"
    and clock: "\<forall>d\<in>set (otps s). o_created_at d < get_ist_time e1"
  shows "fst (forgot_password e1 email s) = Inr OTPSent \<and>
     fst (reset_password e2 email (random_digits e1) new_password
            (snd (forgot_password e1 email s))) = Inr PasswordReset \<and>
     get_by_email email
       (snd (reset_password e2 email (random_digits e1) new_password
               (snd (forgot_password e1 email s))))
       = Some (user\<lparr>u_password := make_password (salt e2) new_password,
                    u_updated_at := get_ist_time e2\<rparr>) \<and>
     check_password new_password (make_password (salt e2) new_password)"
proof -
  let ?new = "\<lparr>o_id = next_id s, o_email = email, o_otp = random_digits e1,
               o_purpose = ''forgot_password'', o_is_used = False,
               o_created_at = get_ist_time e1\<rparr>"
  let ?kept = "delete_many (\<lambda>d. o_created_at d < get_ist_time e1 - timedelta 0 10 0) (otps s)"
  let ?s1 = "s\<lparr>otps := ?kept @ [?new], next_id := Suc (next_id s)\<rparr>"
  let ?P = "\<lambda>d. o_email d = email \<and> o_purpose d = ''forgot_password'' \<and> o_is_used d = False"
  let ?d = "user\<lparr>u_password := make_password (salt e2) new_password,
                  u_updated_at := get_ist_time e2\<rparr>"
  from reach have ok: "sessions_of_verified_users s"
    by (simp add: sessions_ok_reachable)
  from user have mem: "user \<in> set (users s)" and em: "u_email user = email"
    by (auto dest: get_by_email_mem)
  have forgot: "forgot_password e1 email s = (Inr OTPSent, ?s1)"
    using user by (rule forgot_password_existing_user)
  have user1: "get_by_email email ?s1 = Some user"
    using user by (simp add: get_by_email_def)
  have "get_latest_login (u_id user) s = None"
    using ok mem unverified by (rule unverified_user_never_logged_in)
  then have "get_latest_login (u_id user) ?s1 = None"
    by (simp add: get_latest_login_def)
  then have guard: "\<not> logged_out_after_login (u_id user) ?s1"
    by (simp add: logged_out_after_login_def split: option.splits)
  have "\<forall>y\<in>set (filter ?P ?kept). o_created_at y < o_created_at ?new"
    using clock by (simp add: delete_many_def)
  then have "greatest_by o_created_at (filter ?P ?kept @ [?new]) = Some ?new"
    by (rule greatest_by_snoc)
  then have latest: "get_latest_unused email ''forgot_password'' ?s1 = Some ?new"
    by (simp add: get_latest_unused_def find_one_sort_desc_def)
  let ?s2 = "otp_delete ?new ?s1"
  have user2: "get_by_email email ?s2 = Some user"
    using user by (simp add: get_by_email_def otp_delete_def)
  have reset: "reset_password e2 email (random_digits e1) new_password ?s1
                 = (Inr PasswordReset, set_password e2 user new_password ?s2)"
    using user1 guard latest user2 by (simp add: reset_password_def Let_def)
  have d: "distinct (map u_id (users s))"
    using ok by (simp add: sessions_of_verified_users_def)
  have "find_one (\<lambda>u. u_email u = email) (users s) = Some user"
    using user by (simp add: get_by_email_def)
  from find_one_after_replace [OF this d, of ?d] em
  have "get_by_email email (set_password e2 user new_password ?s2) = Some ?d"
    by (simp add: get_by_email_def set_password_def save_def otp_delete_def Let_def)
  with forgot reset show ?thesis
    by (simp add: make_password_def)
qed

theorem unverified_user_can_reset_password_witness:
  "get_by_email ''a@x.com'' st_signup = Some alice_unverified \<and>
   u_is_verified alice_unverified = False \<and>
   fst (forgot_password (at_second 500) ''a@x.com'' st_signup) = Inr OTPSent \<and>
   fst (reset_password (at_second 560) ''a@x.com'' ''123456'' ''pw2''
          (snd (forgot_password (at_second 500) ''a@x.com'' st_signup))) = Inr PasswordReset \<and>
   get_by_email ''a@x.com''
     (snd (reset_password (at_second 560) ''a@x.com'' ''123456'' ''pw2''
             (snd (forgot_password (at_second 500) ''a@x.com'' st_signup))))
     = Some (alice_unverified\<lparr>u_password := Digest ''NaCl'' ''pw2'',
                              u_updated_at := 20360000000\<rparr>)"
proof -
  have reach: "st_signup = run [(at_second 0, Signup ''alice'' ''a@x.com'' ''pw1'')] empty_store"
    by (simp add: st_signup_def)
  have user: "get_by_email ''a@x.com'' st_signup = Some alice_unverified"
    and clock: "\<forall>d\<in>set (otps st_signup). o_created_at d < get_ist_time (at_second 500)"
    unfolding st_signup_eq by (simp_all add: model_defs sample_defs)
  have unverified: "u_is_verified alice_unverified = False"
    by (simp add: alice_unverified_def)
  have code: "random_digits (at_second 500) = ''123456''"
    and salt: "make_password (salt (at_second 560)) ''pw2'' = Digest ''NaCl'' ''pw2''"
    and t: "get_ist_time (at_second 560) = 20360000000"
    by (simp_all add: at_second_def make_password_def get_ist_time_def timedelta_def)
  from unverified_user_can_reset_password
         [OF reach user unverified clock, of "at_second 560" "''pw2''"]
       user unverified code salt t
  show ?thesis by simp
qed

subsection \<open>One user per e-mail\<close>






lemma users_create_otp [simp]: "users (snd (create_otp e email purpose s)) = users s"
  by (simp add: create_otp_def cleanup_expired_otps_def Let_def)





lemma users_login [simp]: "users (snd (login e email password device_type s)) = users s"
  by (simp add: login_def login_create_session_def users_logout_previous_sessions Let_def
           split: option.splits)

lemma users_forgot_password [simp]: "users (snd (forgot_password e email s)) = users s"
  by (simp add: forgot_password_def split_beta split: option.splits)

lemma users_punch_in [simp]:
  "users (snd (punch_in e django_user location latitude longitude s)) = users s"
  by (simp add: punch_in_def Let_def split: option.splits)

lemma users_punch_out [simp]:
  "users (snd (punch_out e django_user location latitude longitude s)) = users s"
  by (simp add: punch_out_def attendance_punch_out_def Let_def split: option.splits)

lemma users_logout [simp]: "users (snd (logout e django_user device_type s)) = users s"
  by (simp add: logout_def logout_create_session_def Let_def split: option.splits)



subsection \<open>What a failed operation leaves behind\<close>


lemma cleanup_unverified_users_keeps_verified:
  "filter u_is_verified (users (cleanup_unverified_users e email s)) = filter u_is_verified (users s)"
  by (auto simp: cleanup_unverified_users_def cleanup_otps_for_email_def delete_many_def Let_def
           intro: filter_cong)

lemma create_user_error:
  "create_user e username email password role s = (Inl err, s') \<Longrightarrow>
     s' = cleanup_unverified_users e (Some email) s"
  by (auto simp: create_user_def insert_user_def Let_def split: option.splits if_splits)

lemma signup_error:
  "signup e user_name email password s = (Inl err, s') \<Longrightarrow>
     s' = cleanup_unverified_users e (Some email) s"
proof (cases "create_user e user_name email password ''employee'' s")
  case (Pair r s1)
  assume *: "signup e user_name email password s = (Inl err, s')"
  show ?thesis
  proof (cases r)
    case (Inl err1)
    with Pair * have "s' = s1" by (simp add: signup_def)
    with Pair Inl show ?thesis by (auto dest: create_user_error)
  next
    case (Inr user)
    with Pair * show ?thesis by (simp add: signup_def split_beta)
  qed
qed






lemma attendance_punch_out_error:
  "attendance_punch_out e user_id date tm location latitude longitude s = (Inl err, s') \<Longrightarrow>
     s' = s"
  by (auto simp: attendance_punch_out_def Let_def split: option.splits)











end
